theory Spec2Isabelle
  imports Complex_Main
begin

section \<open>Python and NumPy primitives\<close>

text \<open>
  Python floats are read as exact reals (decimal literals as the fractions they denote);
  Python integers are \<open>int\<close>.  \<open>int(x)\<close> on a float truncates toward zero, \<open>//\<close> on
  integers is floor division, which is \<open>div\<close> on \<open>int\<close>.
\<close>

datatype error = CvError | ValueError | ZeroDivisionError | BatchFailure

definition py_int :: "real \<Rightarrow> int" where
  "py_int x = (if 0 \<le> x then \<lfloor>x\<rfloor> else \<lceil>x\<rceil>)"

text \<open>\<open>range(a, b)\<close> with the default step.\<close>

definition py_range :: "int \<Rightarrow> int \<Rightarrow> int list" where
  "py_range a b = [a..b - 1]"

text \<open>
  A slice \<open>xs[start:stop]\<close>: a negative bound counts from the end, and both bounds are
  then clipped to \<open>[0, len(xs)]\<close>.
\<close>

definition slice_index :: "int \<Rightarrow> int \<Rightarrow> int" where
  "slice_index n i = (if i < 0 then max (i + n) 0 else min i n)"

definition py_slice :: "'a list \<Rightarrow> int \<Rightarrow> int \<Rightarrow> 'a list" where
  "py_slice xs start stop =
     (let n = int (length xs); a = slice_index n start; b = slice_index n stop
      in take (nat (b - a)) (drop (nat a) xs))"

text \<open>
  \<open>str.strip()\<close> and \<open>str.split()\<close> without argument work on the whitespace characters of
  \<open>str.isspace\<close>; those below U+0100 are listed.
\<close>

definition is_space :: "char \<Rightarrow> bool" where
  "is_space c \<longleftrightarrow>
     c \<in> set [CHR '' '', CHR 0x09, CHR 0x0A, CHR 0x0B, CHR 0x0C, CHR 0x0D,
              CHR 0x1C, CHR 0x1D, CHR 0x1E, CHR 0x1F, CHR 0x85, CHR 0xA0]"

definition py_strip :: "string \<Rightarrow> string" where
  "py_strip s = rev (dropWhile is_space (rev (dropWhile is_space s)))"

fun split_acc :: "string \<Rightarrow> string \<Rightarrow> string list" where
  "split_acc word [] = (if word = [] then [] else [word])"
| "split_acc word (c # cs) =
     (if is_space c then (if word = [] then split_acc [] cs else word # split_acc [] cs)
      else split_acc (word @ [c]) cs)"

definition py_split :: "string \<Rightarrow> string list" where
  "py_split s = split_acc [] s"

text \<open>\<open>str(n)\<close> for an integer, as the f-strings of the file paths print it.\<close>

fun str_nat :: "nat \<Rightarrow> string" where
  "str_nat n = (if n < 10 then [''0123456789'' ! n]
                else str_nat (n div 10) @ [''0123456789'' ! (n mod 10)])"

definition str_int :: "int \<Rightarrow> string" where
  "str_int i = (if i < 0 then CHR ''-'' # str_nat (nat (- i)) else str_nat (nat i))"

section \<open>Images\<close>

text \<open>
  An image is a NumPy array of shape \<open>(rows, columns, 3)\<close>: a list of rows of BGR pixels.
\<close>

type_synonym pixel = "nat \<times> nat \<times> nat"
type_synonym image = "pixel list list"

definition has_shape :: "image \<Rightarrow> int \<Rightarrow> int \<Rightarrow> bool" where
  "has_shape img h w \<longleftrightarrow> int (length img) = h \<and> list_all (\<lambda>row. int (length row) = w) img"

definition is_black :: "image \<Rightarrow> bool" where
  "is_black img \<longleftrightarrow> list_all (list_all (\<lambda>p. p = (0, 0, 0))) img"

text \<open>A raster with at least one pixel: what \<open>cv2.imread\<close> and \<open>cv2.resize\<close> produce.\<close>

definition raster :: "image \<Rightarrow> bool" where
  "raster img \<longleftrightarrow> (\<exists>h w. 0 < h \<and> 0 < w \<and> has_shape img h w)"

text \<open>\<open>np.zeros((height, width, 3), dtype=np.uint8)\<close>; a negative dimension raises.\<close>

definition np_zeros :: "int \<Rightarrow> int \<Rightarrow> error + image" where
  "np_zeros h w = (if h < 0 \<or> w < 0 then Inl ValueError
                   else Inr (replicate (nat h) (replicate (nat w) (0, 0, 0))))"

text \<open>\<open>img[start_y:start_y+height, start_x:start_x+width]\<close>\<close>

definition np_crop :: "image \<Rightarrow> int \<Rightarrow> int \<Rightarrow> int \<Rightarrow> int \<Rightarrow> image" where
  "np_crop img start_y start_x height width =
     map (\<lambda>row. py_slice row start_x (start_x + width)) (py_slice img start_y (start_y + height))"

text \<open>
  \<open>canvas[start_y:start_y+h, start_x:start_x+w] = src\<close> where \<open>src\<close> has \<open>h\<close> rows of \<open>w\<close>
  pixels.  The assignment raises when the selected window is not of the shape of \<open>src\<close>
  (broadcasting of a one-pixel dimension is not modelled).
\<close>

definition paste_row :: "pixel list \<Rightarrow> int \<Rightarrow> pixel list \<Rightarrow> pixel list" where
  "paste_row crow start_x srow =
     take (nat start_x) crow @ srow @ drop (nat start_x + length srow) crow"

definition np_paste :: "image \<Rightarrow> int \<Rightarrow> int \<Rightarrow> int \<Rightarrow> int \<Rightarrow> image \<Rightarrow> error + image" where
  "np_paste canvas start_y start_x h w src =
     (if has_shape (np_crop canvas start_y start_x h w) h w \<and> has_shape src h w
      then Inr (take (nat start_y) canvas
                @ map (\<lambda>(crow, srow). paste_row crow start_x srow)
                      (zip (take (nat h) (drop (nat start_y) canvas)) src)
                @ drop (nat start_y + nat h) canvas)
      else Inl ValueError)"

text \<open>\<open>cv2.cvtColor(frame, cv2.COLOR_BGR2RGB)\<close>\<close>

definition cvtColor_BGR2RGB :: "image \<Rightarrow> image" where
  "cvtColor_BGR2RGB img = map (map (\<lambda>(b, g, r). (r, g, b))) img"

subsection \<open>The imaging libraries\<close>

text \<open>
  OpenCV and PIL are outside the repository.  Their calls are the fields of a record that
  every rendering function takes as its first argument:
  \<^item> \<open>resize cv img w h\<close> is \<open>cv2.resize(img, (w, h))\<close>;
  \<^item> \<open>warp_rotate cv canvas center angle w h\<close> is
    \<open>cv2.warpAffine(canvas, cv2.getRotationMatrix2D(center, angle, 1.0), (w, h))\<close>;
  \<^item> \<open>imread cv path\<close> is \<open>cv2.imread(path)\<close>, \<open>None\<close> when the file cannot be decoded;
  \<^item> \<open>draw_text cv frame text\<close> is the PIL round trip of
    \<open>create_subtitle_overlay_from_rst\<close> that draws the stroked text on the frame.
\<close>

record cv2 =
  resize :: "image \<Rightarrow> int \<Rightarrow> int \<Rightarrow> error + image"
  warp_rotate :: "image \<Rightarrow> int \<times> int \<Rightarrow> real \<Rightarrow> int \<Rightarrow> int \<Rightarrow> error + image"
  imread :: "string \<Rightarrow> image option"
  draw_text :: "image \<Rightarrow> string \<Rightarrow> image"

text \<open>
  What the theorems use of the libraries: on a raster and a positive target size, \<open>resize\<close>
  and \<open>warp_rotate\<close> return a buffer of the target size (rows = height, columns = width),
  black when the source is black; \<open>imread\<close> returns a raster when it returns an image.
\<close>

definition sized_result :: "image \<Rightarrow> error + image \<Rightarrow> int \<Rightarrow> int \<Rightarrow> bool" where
  "sized_result src res h w \<longleftrightarrow>
     (case res of Inl e \<Rightarrow> False
      | Inr out \<Rightarrow> has_shape out h w \<and> (is_black src \<longrightarrow> is_black out))"

definition cv2_contract :: "cv2 \<Rightarrow> bool" where
  "cv2_contract cv \<longleftrightarrow>
     (\<forall>img w h. raster img \<and> 0 < w \<and> 0 < h \<longrightarrow> sized_result img (resize cv img w h) h w)
   \<and> (\<forall>img c a w h. raster img \<and> 0 < w \<and> 0 < h \<longrightarrow>
         sized_result img (warp_rotate cv img c a w h) h w)
   \<and> (\<forall>path img. imread cv path = Some img \<longrightarrow> raster img)"

text \<open>
  One instance of the libraries, used to run the definitions on concrete inputs: resizing
  by nearest-neighbour sampling, a rotation that only resamples the canvas to the target
  size, no file on disk, and a text overlay that leaves the frame as it is.
\<close>

definition nearest :: "'a list \<Rightarrow> int \<Rightarrow> 'a list" where
  "nearest xs n = map (\<lambda>i. xs ! nat (i * int (length xs) div n)) [0..n - 1]"

definition resize_nearest :: "image \<Rightarrow> int \<Rightarrow> int \<Rightarrow> error + image" where
  "resize_nearest img w h =
     (if img = [] \<or> hd img = [] \<or> w \<le> 0 \<or> h \<le> 0 then Inl CvError
      else Inr (map (\<lambda>row. nearest row w) (nearest img h)))"

definition plain_cv2 :: cv2 where
  "plain_cv2 = \<lparr> resize = resize_nearest,
                 warp_rotate = (\<lambda>canvas center angle w h. resize_nearest canvas w h),
                 imread = (\<lambda>path. None),
                 draw_text = (\<lambda>frame text. frame) \<rparr>"

section \<open>Effect engine (video\_renderer.py)\<close>

text \<open>The effect kinds are the string constants of class \<open>KenBurnsEffect\<close>.\<close>

definition ZOOM_IN :: string where "ZOOM_IN = ''zoom_in''"
definition ZOOM_OUT :: string where "ZOOM_OUT = ''zoom_out''"
definition PAN_LEFT :: string where "PAN_LEFT = ''pan_left''"
definition PAN_RIGHT :: string where "PAN_RIGHT = ''pan_right''"
definition PAN_UP :: string where "PAN_UP = ''pan_up''"
definition PAN_DOWN :: string where "PAN_DOWN = ''pan_down''"
definition ZOOM_PAN_LEFT :: string where "ZOOM_PAN_LEFT = ''zoom_pan_left''"
definition ZOOM_PAN_RIGHT :: string where "ZOOM_PAN_RIGHT = ''zoom_pan_right''"
definition ZOOM_PAN_UP :: string where "ZOOM_PAN_UP = ''zoom_pan_up''"
definition ZOOM_PAN_DOWN :: string where "ZOOM_PAN_DOWN = ''zoom_pan_down''"
definition ROTATE_ZOOM :: string where "ROTATE_ZOOM = ''rotate_zoom''"
definition SPIRAL :: string where "SPIRAL = ''spiral''"

definition EFFECT_SEQUENCE :: "string list" where
  "EFFECT_SEQUENCE =
     [ZOOM_IN, PAN_LEFT, ZOOM_PAN_RIGHT, PAN_UP, ZOOM_OUT, PAN_DOWN, ZOOM_PAN_LEFT, SPIRAL,
      PAN_RIGHT, ZOOM_PAN_UP, ROTATE_ZOOM, ZOOM_IN, PAN_LEFT, ZOOM_PAN_DOWN, PAN_UP]"

definition easing_function :: "real \<Rightarrow> real" where
  "easing_function t = (if t < 0.5 then 4 * t * t * t else 1 - (- 2 * t + 2) ^ 3 / 2)"

text \<open>
  Every effect resizes the source to a zoomed buffer (for \<open>rotate_zoom\<close>: builds a square
  canvas) and returns the slice \<open>[start_y:start_y+height, start_x:start_x+width]\<close> of it.
  The numbers of that slice are collected in a record; each \<open>*_window\<close> function below is
  the arithmetic of the effect of the same name, in the order of its statements.
\<close>

record crop_window =
  buf_width :: int
  buf_height :: int
  start_x :: int
  start_y :: int

definition zoom_in_window :: "real \<Rightarrow> int \<Rightarrow> int \<Rightarrow> crop_window" where
  "zoom_in_window progress width height =
     (let zoom_start = 1.0; zoom_end = 1.3;
          current_zoom = zoom_start + (zoom_end - zoom_start) * progress;
          zoom_height = py_int (real_of_int height * current_zoom);
          zoom_width = py_int (real_of_int width * current_zoom);
          sy = (zoom_height - height) div 2;
          sx = (zoom_width - width) div 2
      in \<lparr>buf_width = zoom_width, buf_height = zoom_height, start_x = sx, start_y = sy\<rparr>)"

definition zoom_out_window :: "real \<Rightarrow> int \<Rightarrow> int \<Rightarrow> crop_window" where
  "zoom_out_window progress width height =
     (let zoom_start = 1.3; zoom_end = 1.0;
          current_zoom = zoom_start + (zoom_end - zoom_start) * progress;
          zoom_height = py_int (real_of_int height * current_zoom);
          zoom_width = py_int (real_of_int width * current_zoom);
          sy = (zoom_height - height) div 2;
          sx = (zoom_width - width) div 2
      in \<lparr>buf_width = zoom_width, buf_height = zoom_height, start_x = sx, start_y = sy\<rparr>)"

definition pan_left_window :: "real \<Rightarrow> int \<Rightarrow> int \<Rightarrow> crop_window" where
  "pan_left_window progress width height =
     (let pan_distance = py_int (real_of_int width * 0.3);
          zoom_factor = 1.2;
          zoom_width = py_int (real_of_int width * zoom_factor);
          zoom_height = py_int (real_of_int height * zoom_factor);
          sx = py_int (real_of_int (zoom_width - width) - progress * real_of_int pan_distance);
          sy = (zoom_height - height) div 2;
          sx = max 0 (min sx (zoom_width - width))
      in \<lparr>buf_width = zoom_width, buf_height = zoom_height, start_x = sx, start_y = sy\<rparr>)"

definition pan_right_window :: "real \<Rightarrow> int \<Rightarrow> int \<Rightarrow> crop_window" where
  "pan_right_window progress width height =
     (let pan_distance = py_int (real_of_int width * 0.3);
          zoom_factor = 1.2;
          zoom_width = py_int (real_of_int width * zoom_factor);
          zoom_height = py_int (real_of_int height * zoom_factor);
          sx = py_int (progress * real_of_int pan_distance);
          sy = (zoom_height - height) div 2;
          sx = max 0 (min sx (zoom_width - width))
      in \<lparr>buf_width = zoom_width, buf_height = zoom_height, start_x = sx, start_y = sy\<rparr>)"

definition pan_up_window :: "real \<Rightarrow> int \<Rightarrow> int \<Rightarrow> crop_window" where
  "pan_up_window progress width height =
     (let pan_distance = py_int (real_of_int height * 0.3);
          zoom_factor = 1.2;
          zoom_width = py_int (real_of_int width * zoom_factor);
          zoom_height = py_int (real_of_int height * zoom_factor);
          sx = (zoom_width - width) div 2;
          sy = py_int (real_of_int (zoom_height - height) - progress * real_of_int pan_distance);
          sy = max 0 (min sy (zoom_height - height))
      in \<lparr>buf_width = zoom_width, buf_height = zoom_height, start_x = sx, start_y = sy\<rparr>)"

definition pan_down_window :: "real \<Rightarrow> int \<Rightarrow> int \<Rightarrow> crop_window" where
  "pan_down_window progress width height =
     (let pan_distance = py_int (real_of_int height * 0.3);
          zoom_factor = 1.2;
          zoom_width = py_int (real_of_int width * zoom_factor);
          zoom_height = py_int (real_of_int height * zoom_factor);
          sx = (zoom_width - width) div 2;
          sy = py_int (progress * real_of_int pan_distance);
          sy = max 0 (min sy (zoom_height - height))
      in \<lparr>buf_width = zoom_width, buf_height = zoom_height, start_x = sx, start_y = sy\<rparr>)"

definition zoom_pan_left_window :: "real \<Rightarrow> int \<Rightarrow> int \<Rightarrow> crop_window" where
  "zoom_pan_left_window progress width height =
     (let zoom_start = 1.0; zoom_end = 1.25;
          current_zoom = zoom_start + (zoom_end - zoom_start) * progress;
          pan_distance = py_int (real_of_int width * 0.2);
          zoom_width = py_int (real_of_int width * current_zoom);
          zoom_height = py_int (real_of_int height * current_zoom);
          sx = py_int (real_of_int (zoom_width - width) / 2 - progress * real_of_int pan_distance);
          sy = (zoom_height - height) div 2;
          sx = max 0 (min sx (zoom_width - width))
      in \<lparr>buf_width = zoom_width, buf_height = zoom_height, start_x = sx, start_y = sy\<rparr>)"

definition zoom_pan_right_window :: "real \<Rightarrow> int \<Rightarrow> int \<Rightarrow> crop_window" where
  "zoom_pan_right_window progress width height =
     (let zoom_start = 1.0; zoom_end = 1.25;
          current_zoom = zoom_start + (zoom_end - zoom_start) * progress;
          pan_distance = py_int (real_of_int width * 0.2);
          zoom_width = py_int (real_of_int width * current_zoom);
          zoom_height = py_int (real_of_int height * current_zoom);
          sx = py_int (real_of_int (zoom_width - width) / 2 + progress * real_of_int pan_distance);
          sy = (zoom_height - height) div 2;
          sx = max 0 (min sx (zoom_width - width))
      in \<lparr>buf_width = zoom_width, buf_height = zoom_height, start_x = sx, start_y = sy\<rparr>)"

definition zoom_pan_up_window :: "real \<Rightarrow> int \<Rightarrow> int \<Rightarrow> crop_window" where
  "zoom_pan_up_window progress width height =
     (let zoom_start = 1.0; zoom_end = 1.25;
          current_zoom = zoom_start + (zoom_end - zoom_start) * progress;
          pan_distance = py_int (real_of_int height * 0.2);
          zoom_width = py_int (real_of_int width * current_zoom);
          zoom_height = py_int (real_of_int height * current_zoom);
          sx = (zoom_width - width) div 2;
          sy = py_int (real_of_int (zoom_height - height) / 2 - progress * real_of_int pan_distance);
          sy = max 0 (min sy (zoom_height - height))
      in \<lparr>buf_width = zoom_width, buf_height = zoom_height, start_x = sx, start_y = sy\<rparr>)"

definition zoom_pan_down_window :: "real \<Rightarrow> int \<Rightarrow> int \<Rightarrow> crop_window" where
  "zoom_pan_down_window progress width height =
     (let zoom_start = 1.0; zoom_end = 1.25;
          current_zoom = zoom_start + (zoom_end - zoom_start) * progress;
          pan_distance = py_int (real_of_int height * 0.2);
          zoom_width = py_int (real_of_int width * current_zoom);
          zoom_height = py_int (real_of_int height * current_zoom);
          sx = (zoom_width - width) div 2;
          sy = py_int (real_of_int (zoom_height - height) / 2 + progress * real_of_int pan_distance);
          sy = max 0 (min sy (zoom_height - height))
      in \<lparr>buf_width = zoom_width, buf_height = zoom_height, start_x = sx, start_y = sy\<rparr>)"

definition spiral_window :: "real \<Rightarrow> int \<Rightarrow> int \<Rightarrow> crop_window" where
  "spiral_window progress width height =
     (let zoom_start = 1.0; zoom_end = 1.4;
          current_zoom = zoom_start + (zoom_end - zoom_start) * progress;
          angle = progress * pi * 2;
          spiral_radius = real_of_int (min width height) * 0.1 * progress;
          pan_x = py_int (cos angle * spiral_radius);
          pan_y = py_int (sin angle * spiral_radius);
          zoom_width = py_int (real_of_int width * current_zoom);
          zoom_height = py_int (real_of_int height * current_zoom);
          sx = (zoom_width - width) div 2 + pan_x;
          sy = (zoom_height - height) div 2 + pan_y;
          sx = max 0 (min sx (zoom_width - width));
          sy = max 0 (min sy (zoom_height - height))
      in \<lparr>buf_width = zoom_width, buf_height = zoom_height, start_x = sx, start_y = sy\<rparr>)"

text \<open>
  For \<open>rotate_zoom\<close> the buffer that is cropped is the rotated square canvas; the zoomed
  image is first pasted at the centre of the canvas.
\<close>

record canvas_layout =
  canvas_size :: int
  zoom_width :: int
  zoom_height :: int
  paste_x :: int
  paste_y :: int
  rotation_angle :: real

definition rotate_zoom_layout :: "real \<Rightarrow> int \<Rightarrow> int \<Rightarrow> canvas_layout" where
  "rotate_zoom_layout progress width height =
     (let zoom_start = 1.1; zoom_end = 1.3;
          current_zoom = zoom_start + (zoom_end - zoom_start) * progress;
          angle = sin (progress * pi) * 3;
          csize = py_int (real_of_int (max width height) * current_zoom * 1.5);
          zw = py_int (real_of_int width * current_zoom);
          zh = py_int (real_of_int height * current_zoom);
          sy = (csize - zh) div 2;
          sx = (csize - zw) div 2
      in \<lparr>canvas_size = csize, zoom_width = zw, zoom_height = zh,
          paste_x = sx, paste_y = sy, rotation_angle = angle\<rparr>)"

definition rotate_zoom_window :: "real \<Rightarrow> int \<Rightarrow> int \<Rightarrow> crop_window" where
  "rotate_zoom_window progress width height =
     (let csize = canvas_size (rotate_zoom_layout progress width height);
          final_start_y = (csize - height) div 2;
          final_start_x = (csize - width) div 2
      in \<lparr>buf_width = csize, buf_height = csize,
          start_x = final_start_x, start_y = final_start_y\<rparr>)"

text \<open>
  \<^verbatim>\<open>zoomed_img = cv2.resize(img, (zoom_width, zoom_height))
return zoomed_img[start_y:start_y+height, start_x:start_x+width]\<close>
\<close>

definition resize_and_crop :: "cv2 \<Rightarrow> image \<Rightarrow> crop_window \<Rightarrow> int \<Rightarrow> int \<Rightarrow> error + image" where
  "resize_and_crop cv img win width height =
     (case resize cv img (buf_width win) (buf_height win) of
        Inl e \<Rightarrow> Inl e
      | Inr zoomed_img \<Rightarrow> Inr (np_crop zoomed_img (start_y win) (start_x win) height width))"

definition apply_zoom_in :: "cv2 \<Rightarrow> image \<Rightarrow> real \<Rightarrow> int \<Rightarrow> int \<Rightarrow> error + image" where
  "apply_zoom_in cv img progress width height =
     resize_and_crop cv img (zoom_in_window progress width height) width height"

definition apply_zoom_out :: "cv2 \<Rightarrow> image \<Rightarrow> real \<Rightarrow> int \<Rightarrow> int \<Rightarrow> error + image" where
  "apply_zoom_out cv img progress width height =
     resize_and_crop cv img (zoom_out_window progress width height) width height"

definition apply_pan_left :: "cv2 \<Rightarrow> image \<Rightarrow> real \<Rightarrow> int \<Rightarrow> int \<Rightarrow> error + image" where
  "apply_pan_left cv img progress width height =
     resize_and_crop cv img (pan_left_window progress width height) width height"

definition apply_pan_right :: "cv2 \<Rightarrow> image \<Rightarrow> real \<Rightarrow> int \<Rightarrow> int \<Rightarrow> error + image" where
  "apply_pan_right cv img progress width height =
     resize_and_crop cv img (pan_right_window progress width height) width height"

definition apply_pan_up :: "cv2 \<Rightarrow> image \<Rightarrow> real \<Rightarrow> int \<Rightarrow> int \<Rightarrow> error + image" where
  "apply_pan_up cv img progress width height =
     resize_and_crop cv img (pan_up_window progress width height) width height"

definition apply_pan_down :: "cv2 \<Rightarrow> image \<Rightarrow> real \<Rightarrow> int \<Rightarrow> int \<Rightarrow> error + image" where
  "apply_pan_down cv img progress width height =
     resize_and_crop cv img (pan_down_window progress width height) width height"

definition apply_zoom_pan_left :: "cv2 \<Rightarrow> image \<Rightarrow> real \<Rightarrow> int \<Rightarrow> int \<Rightarrow> error + image" where
  "apply_zoom_pan_left cv img progress width height =
     resize_and_crop cv img (zoom_pan_left_window progress width height) width height"

definition apply_zoom_pan_right :: "cv2 \<Rightarrow> image \<Rightarrow> real \<Rightarrow> int \<Rightarrow> int \<Rightarrow> error + image" where
  "apply_zoom_pan_right cv img progress width height =
     resize_and_crop cv img (zoom_pan_right_window progress width height) width height"

definition apply_zoom_pan_up :: "cv2 \<Rightarrow> image \<Rightarrow> real \<Rightarrow> int \<Rightarrow> int \<Rightarrow> error + image" where
  "apply_zoom_pan_up cv img progress width height =
     resize_and_crop cv img (zoom_pan_up_window progress width height) width height"

definition apply_zoom_pan_down :: "cv2 \<Rightarrow> image \<Rightarrow> real \<Rightarrow> int \<Rightarrow> int \<Rightarrow> error + image" where
  "apply_zoom_pan_down cv img progress width height =
     resize_and_crop cv img (zoom_pan_down_window progress width height) width height"

definition apply_spiral :: "cv2 \<Rightarrow> image \<Rightarrow> real \<Rightarrow> int \<Rightarrow> int \<Rightarrow> error + image" where
  "apply_spiral cv img progress width height =
     resize_and_crop cv img (spiral_window progress width height) width height"

definition apply_rotate_zoom :: "cv2 \<Rightarrow> image \<Rightarrow> real \<Rightarrow> int \<Rightarrow> int \<Rightarrow> error + image" where
  "apply_rotate_zoom cv img progress width height =
     (let lay = rotate_zoom_layout progress width height;
          win = rotate_zoom_window progress width height;
          csize = canvas_size lay
      in case np_zeros csize csize of
           Inl e \<Rightarrow> Inl e
         | Inr canvas \<Rightarrow>
          (case resize cv img (zoom_width lay) (zoom_height lay) of
             Inl e \<Rightarrow> Inl e
           | Inr zoomed_img \<Rightarrow>
            (case np_paste canvas (paste_y lay) (paste_x lay)
                    (zoom_height lay) (zoom_width lay) zoomed_img of
               Inl e \<Rightarrow> Inl e
             | Inr canvas' \<Rightarrow>
              (case warp_rotate cv canvas' (csize div 2, csize div 2)
                      (rotation_angle lay) csize csize of
                 Inl e \<Rightarrow> Inl e
               | Inr rotated \<Rightarrow>
                   Inr (np_crop rotated (start_y win) (start_x win) height width)))))"

definition clamp_progress :: "real \<Rightarrow> real" where
  "clamp_progress progress = max 0.0 (min 1.0 progress)"

definition apply_ken_burns_effect ::
    "cv2 \<Rightarrow> image \<Rightarrow> real \<Rightarrow> string \<Rightarrow> int \<Rightarrow> int \<Rightarrow> error + image" where
  "apply_ken_burns_effect cv img progress effect_type width height =
     (let progress = clamp_progress progress;
          eased_progress = easing_function progress
      in if effect_type = ZOOM_IN then apply_zoom_in cv img eased_progress width height
         else if effect_type = ZOOM_OUT then apply_zoom_out cv img eased_progress width height
         else if effect_type = PAN_LEFT then apply_pan_left cv img eased_progress width height
         else if effect_type = PAN_RIGHT then apply_pan_right cv img eased_progress width height
         else if effect_type = PAN_UP then apply_pan_up cv img eased_progress width height
         else if effect_type = PAN_DOWN then apply_pan_down cv img eased_progress width height
         else if effect_type = ZOOM_PAN_LEFT
           then apply_zoom_pan_left cv img eased_progress width height
         else if effect_type = ZOOM_PAN_RIGHT
           then apply_zoom_pan_right cv img eased_progress width height
         else if effect_type = ZOOM_PAN_UP
           then apply_zoom_pan_up cv img eased_progress width height
         else if effect_type = ZOOM_PAN_DOWN
           then apply_zoom_pan_down cv img eased_progress width height
         else if effect_type = ROTATE_ZOOM
           then apply_rotate_zoom cv img eased_progress width height
         else if effect_type = SPIRAL then apply_spiral cv img eased_progress width height
         else apply_zoom_in cv img eased_progress width height)"

text \<open>
  The crop window that \<open>apply_ken_burns_effect\<close> uses for an effect kind, by the same
  dispatch (an unknown kind is \<open>zoom_in\<close>).
\<close>

definition ken_burns_window :: "real \<Rightarrow> string \<Rightarrow> int \<Rightarrow> int \<Rightarrow> crop_window" where
  "ken_burns_window progress effect_type width height =
     (let progress = clamp_progress progress;
          eased_progress = easing_function progress
      in if effect_type = ZOOM_IN then zoom_in_window eased_progress width height
         else if effect_type = ZOOM_OUT then zoom_out_window eased_progress width height
         else if effect_type = PAN_LEFT then pan_left_window eased_progress width height
         else if effect_type = PAN_RIGHT then pan_right_window eased_progress width height
         else if effect_type = PAN_UP then pan_up_window eased_progress width height
         else if effect_type = PAN_DOWN then pan_down_window eased_progress width height
         else if effect_type = ZOOM_PAN_LEFT then zoom_pan_left_window eased_progress width height
         else if effect_type = ZOOM_PAN_RIGHT
           then zoom_pan_right_window eased_progress width height
         else if effect_type = ZOOM_PAN_UP then zoom_pan_up_window eased_progress width height
         else if effect_type = ZOOM_PAN_DOWN
           then zoom_pan_down_window eased_progress width height
         else if effect_type = ROTATE_ZOOM then rotate_zoom_window eased_progress width height
         else if effect_type = SPIRAL then spiral_window eased_progress width height
         else zoom_in_window eased_progress width height)"

definition in_bounds :: "crop_window \<Rightarrow> int \<Rightarrow> int \<Rightarrow> bool" where
  "in_bounds win width height \<longleftrightarrow>
     0 \<le> start_x win \<and> start_x win + width \<le> buf_width win
   \<and> 0 \<le> start_y win \<and> start_y win + height \<le> buf_height win"

section \<open>Segment timeline (subtitle\_processor.py)\<close>

text \<open>
  A timeline entry is a Python dict.  The entries kept in \<open>SubtitleRenderer.timing_info\<close>
  and the ones built by \<open>SubtitleProcessor.generate_complete_rst_file\<close> share the keys
  \<open>text\<close>, \<open>start_time\<close>, \<open>end_time\<close> and \<open>duration\<close>; the processor's entries add the
  integer keys \<open>scene\<close> and \<open>chunk\<close>.
\<close>

record timing =
  seg_text :: string
  start_time :: real
  end_time :: real
  duration :: real

record segment = timing +
  scene :: int
  chunk :: int

subsection \<open>SubtitleRenderer.get\_subtitle\_at\_time\<close>

text \<open>
  \<^verbatim>\<open>for info in self.timing_info:
    if info['start_time'] <= current_time <= info['end_time']:
        return info['text']
return ""\<close>
\<close>

fun get_subtitle_at_time :: "'a timing_scheme list \<Rightarrow> real \<Rightarrow> string" where
  "get_subtitle_at_time [] current_time = ''''"
| "get_subtitle_at_time (info # rest) current_time =
     (if start_time info \<le> current_time \<and> current_time \<le> end_time info
      then seg_text info
      else get_subtitle_at_time rest current_time)"

text \<open>The closed test of the subtitle lookup: the entry contains the timestamp.\<close>

definition covers :: "'a timing_scheme \<Rightarrow> real \<Rightarrow> bool" where
  "covers info t \<longleftrightarrow> start_time info \<le> t \<and> t \<le> end_time info"

subsection \<open>SubtitleProcessor.split\_into\_chunks\<close>

fun chunk_loop :: "string list \<Rightarrow> int \<Rightarrow> string list \<Rightarrow> string \<Rightarrow> string list" where
  "chunk_loop [] max_chars chunks current_chunk =
     (if py_strip current_chunk \<noteq> [] then chunks @ [py_strip current_chunk] else chunks)"
| "chunk_loop (word # ws) max_chars chunks current_chunk =
     (let test_chunk = current_chunk @ (if current_chunk \<noteq> [] then '' '' else '''') @ word
      in if int (length test_chunk) \<le> max_chars
         then chunk_loop ws max_chars chunks test_chunk
         else chunk_loop ws max_chars
                (if py_strip current_chunk \<noteq> [] then chunks @ [py_strip current_chunk]
                 else chunks)
                word)"

definition split_into_chunks :: "string \<Rightarrow> int \<Rightarrow> string list" where
  "split_into_chunks text_in max_chars_per_chunk =
     chunk_loop (py_split text_in) max_chars_per_chunk [] ''''"

subsection \<open>SubtitleProcessor.generate\_complete\_rst\_file\<close>

text \<open>
  The function reads two things from outside: the regular-expression substitution
  \<open>remove_punctuation\<close> and the duration of each audio file.  Both are arguments here:
  \<open>remove_punctuation\<close> as a function on strings, the audio files as a function from a
  path to the clip's duration, \<open>None\<close> when the file does not exist or cannot be opened
  (the source then takes 3.0 seconds).
\<close>

definition scene_duration_of :: "(string \<Rightarrow> real option) \<Rightarrow> string \<Rightarrow> real" where
  "scene_duration_of audio_duration audio_path =
     (case audio_duration audio_path of Some d \<Rightarrow> d | None \<Rightarrow> 3.0)"

definition chunk_segments :: "int \<Rightarrow> string list \<Rightarrow> real \<Rightarrow> real \<Rightarrow> segment list" where
  "chunk_segments i chunks current_start_time scene_duration =
     (let chunk_duration = (if chunks \<noteq> [] then scene_duration / real (length chunks)
                            else scene_duration)
      in map (\<lambda>(j, chunk_text).
                \<lparr>seg_text = chunk_text,
                 start_time = current_start_time + real j * chunk_duration,
                 end_time = current_start_time + (real j + 1) * chunk_duration,
                 duration = chunk_duration,
                 scene = i,
                 chunk = int j + 1\<rparr>)
             (enumerate 0 chunks))"

fun rst_loop ::
    "(string \<Rightarrow> string) \<Rightarrow> (string \<Rightarrow> real option) \<Rightarrow> int \<Rightarrow> (string \<times> string) list
     \<Rightarrow> segment list \<Rightarrow> real \<Rightarrow> segment list \<times> real" where
  "rst_loop remove_punctuation audio_duration i [] all_segments current_start_time =
     (all_segments, current_start_time)"
| "rst_loop remove_punctuation audio_duration i ((caption_text, audio_path) # rest)
       all_segments current_start_time =
     (let scene_duration = scene_duration_of audio_duration audio_path;
          clean_text = remove_punctuation caption_text;
          chunks = split_into_chunks clean_text 15
      in rst_loop remove_punctuation audio_duration (i + 1) rest
           (all_segments @ chunk_segments i chunks current_start_time scene_duration)
           (current_start_time + scene_duration))"

text \<open>
  The returned \<open>all_segments\<close>, and the \<open>total_duration\<close> that the function writes into the
  header of the RST file.
\<close>

definition generate_complete_rst_file ::
    "(string \<Rightarrow> string) \<Rightarrow> (string \<Rightarrow> real option) \<Rightarrow> string list \<Rightarrow> string list
     \<Rightarrow> segment list" where
  "generate_complete_rst_file remove_punctuation audio_duration captions_list audio_files_list =
     fst (rst_loop remove_punctuation audio_duration 1 (zip captions_list audio_files_list) [] 0.0)"

definition rst_total_duration ::
    "(string \<Rightarrow> string) \<Rightarrow> (string \<Rightarrow> real option) \<Rightarrow> string list \<Rightarrow> string list \<Rightarrow> real" where
  "rst_total_duration remove_punctuation audio_duration captions_list audio_files_list =
     snd (rst_loop remove_punctuation audio_duration 1 (zip captions_list audio_files_list) [] 0.0)"

subsection \<open>StoryboardProcessor.generate\_complete\_rst\_file (storyboard\_processor.py)\<close>

text \<open>
  The sibling of \<open>SubtitleProcessor.generate_complete_rst_file\<close>.  Its \<open>remove_punctuation\<close>
  and \<open>split_into_chunks\<close> are copies of the ones above, and its loop differs in two
  places: the scene number and the audio path come from the storyline, and a scene without
  chunks gets its text as one chunk:
  \<^verbatim>\<open>chunks = self.split_into_chunks(clean_text)
if not chunks:
    chunks = [clean_text or storyline_text]\<close>
\<close>

definition storyboard_audio_path :: "string \<Rightarrow> int \<Rightarrow> string" where
  "storyboard_audio_path shot_name scene_number =
     ''assets/'' @ shot_name @ ''/audios/'' @ shot_name @ ''_'' @ str_int scene_number @ ''.wav''"

fun storyboard_rst_loop ::
    "(string \<Rightarrow> string) \<Rightarrow> (string \<Rightarrow> real option) \<Rightarrow> string \<Rightarrow> (int \<times> string) list
     \<Rightarrow> segment list \<Rightarrow> real \<Rightarrow> segment list \<times> real" where
  "storyboard_rst_loop remove_punctuation audio_duration shot_name [] all_segments
       current_start_time =
     (all_segments, current_start_time)"
| "storyboard_rst_loop remove_punctuation audio_duration shot_name
       ((scene_number, storyline_text) # rest) all_segments current_start_time =
     (let scene_duration =
            scene_duration_of audio_duration (storyboard_audio_path shot_name scene_number);
          clean_text = remove_punctuation storyline_text;
          chunks0 = split_into_chunks clean_text 15;
          chunks = (if chunks0 = []
                    then [if clean_text \<noteq> [] then clean_text else storyline_text]
                    else chunks0)
      in storyboard_rst_loop remove_punctuation audio_duration shot_name rest
           (all_segments @ chunk_segments scene_number chunks current_start_time scene_duration)
           (current_start_time + scene_duration))"

definition storyboard_generate_complete_rst_file ::
    "(string \<Rightarrow> string) \<Rightarrow> (string \<Rightarrow> real option) \<Rightarrow> string \<Rightarrow> (int \<times> string) list
     \<Rightarrow> segment list \<times> real" where
  "storyboard_generate_complete_rst_file remove_punctuation audio_duration shot_name storylines =
     storyboard_rst_loop remove_punctuation audio_duration shot_name storylines [] 0.0"

section \<open>Frame rendering (video\_renderer.py)\<close>

subsection \<open>get\_cached\_image\<close>

text \<open>
  The module-level \<open>image_cache\<close> dict and the lines printed to the console are the state
  that the rendering functions pass along.
\<close>

record render_state =
  image_cache :: "string \<rightharpoonup> image"
  printed :: "string list"

definition image_path :: "string \<Rightarrow> int \<Rightarrow> string" where
  "image_path shot scene_number =
     ''assets/'' @ shot @ ''/images/'' @ shot @ ''_'' @ str_int scene_number @ ''.png''"

definition load_warning :: "string \<Rightarrow> string" where
  "load_warning path = ''warning: cannot load image '' @ path"

definition get_cached_image ::
    "cv2 \<Rightarrow> string \<Rightarrow> int \<Rightarrow> int \<Rightarrow> int \<Rightarrow> render_state \<Rightarrow> error + image \<times> render_state" where
  "get_cached_image cv shot scene_number width height st =
     (let path = image_path shot scene_number
      in case image_cache st path of
           Some cached \<Rightarrow> Inr (cached, st)
         | None \<Rightarrow>
            (case imread cv path of
               None \<Rightarrow>
                 (case np_zeros height width of
                    Inl e \<Rightarrow> Inl e
                  | Inr img \<Rightarrow>
                      Inr (img, st\<lparr>image_cache := (image_cache st)(path \<mapsto> img),
                                    printed := printed st @ [load_warning path]\<rparr>))
             | Some loaded \<Rightarrow>
                 (case resize cv loaded width height of
                    Inl e \<Rightarrow> Inl e
                  | Inr img \<Rightarrow>
                      Inr (img, st\<lparr>image_cache := (image_cache st)(path \<mapsto> img)\<rparr>))))"

subsection \<open>create\_subtitle\_overlay\_from\_rst\<close>

definition create_subtitle_overlay_from_rst ::
    "cv2 \<Rightarrow> image \<Rightarrow> 'a timing_scheme list \<Rightarrow> real \<Rightarrow> image" where
  "create_subtitle_overlay_from_rst cv frame timing_info current_time =
     (let subtitle_text = get_subtitle_at_time timing_info current_time
      in if py_strip subtitle_text = [] then frame
         else draw_text cv frame subtitle_text)"

subsection \<open>render\_frame\_batch\<close>

text \<open>\<open>min(...)\<close> and \<open>max(...)\<close> of a generator raise \<open>ValueError\<close> on an empty one.\<close>

fun min_of :: "real list \<Rightarrow> error + real" where
  "min_of [] = Inl ValueError"
| "min_of (x # xs) = Inr (fold min xs x)"

fun max_of :: "real list \<Rightarrow> error + real" where
  "max_of [] = Inl ValueError"
| "max_of (x # xs) = Inr (fold max xs x)"

text \<open>
  The scan for the scene of a timestamp: the first segment with
  \<open>start_time \<le> current_time < end_time\<close> gives the scene number, and the scene's window is
  the least start and the greatest end among the segments of that scene.  Without a match
  the initial values \<open>scene_number = 1\<close>, \<open>scene_start_time = 0\<close>, \<open>scene_end_time = 0\<close>
  remain.
\<close>

definition scene_at :: "segment list \<Rightarrow> real \<Rightarrow> error + int \<times> real \<times> real" where
  "scene_at all_segments current_time =
     (case find (\<lambda>seg. start_time seg \<le> current_time \<and> current_time < end_time seg)
             all_segments of
        None \<Rightarrow> Inr (1, 0, 0)
      | Some found \<Rightarrow>
         (let scene_number = scene found;
              scene_segments = filter (\<lambda>seg. scene seg = scene_number) all_segments
          in case min_of (map start_time scene_segments) of
               Inl e \<Rightarrow> Inl e
             | Inr scene_start_time \<Rightarrow>
                (case max_of (map end_time scene_segments) of
                   Inl e \<Rightarrow> Inl e
                 | Inr scene_end_time \<Rightarrow>
                     Inr (scene_number, scene_start_time, scene_end_time))))"

definition effect_for_scene :: "int \<Rightarrow> string" where
  "effect_for_scene scene_number =
     EFFECT_SEQUENCE ! nat ((scene_number - 1) mod int (length EFFECT_SEQUENCE))"

definition scene_progress_of :: "real \<Rightarrow> real \<Rightarrow> real \<Rightarrow> real" where
  "scene_progress_of current_time scene_start_time scene_end_time0 =
     (let scene_end_time = (if scene_end_time0 = 0 then scene_start_time + 3.0
                            else scene_end_time0);
          scene_duration0 = scene_end_time - scene_start_time;
          scene_duration = (if scene_duration0 \<le> 0 then 1.0 else scene_duration0);
          scene_progress = (current_time - scene_start_time) / scene_duration
      in max 0 (min 1 scene_progress))"

text \<open>
  One pass of the loop body for the pair \<open>(frame_idx, current_time)\<close>.  \<open>base_frame\<close> is the
  frame before the subtitle is drawn on it.
\<close>

definition base_frame ::
    "cv2 \<Rightarrow> segment list \<Rightarrow> int \<Rightarrow> int \<Rightarrow> string \<Rightarrow> real \<Rightarrow> render_state
     \<Rightarrow> error + image \<times> render_state" where
  "base_frame cv all_segments width height shot current_time st =
     (case scene_at all_segments current_time of
        Inl e \<Rightarrow> Inl e
      | Inr (scene_number, scene_start_time, scene_end_time) \<Rightarrow>
         (case get_cached_image cv shot scene_number width height st of
            Inl e \<Rightarrow> Inl e
          | Inr (img, st') \<Rightarrow>
             (let scene_progress =
                    scene_progress_of current_time scene_start_time scene_end_time;
                  effect_type = effect_for_scene scene_number
              in case apply_ken_burns_effect cv img scene_progress effect_type width height of
                   Inl e \<Rightarrow> Inl e
                 | Inr frame \<Rightarrow> Inr (frame, st'))))"

definition render_frame ::
    "cv2 \<Rightarrow> segment list \<Rightarrow> 'a timing_scheme list \<Rightarrow> int \<Rightarrow> int \<Rightarrow> string
     \<Rightarrow> int \<times> real \<Rightarrow> render_state \<Rightarrow> error + (int \<times> image) \<times> render_state" where
  "render_frame cv all_segments timing_info width height shot frame_info st =
     (case frame_info of (frame_idx, current_time) \<Rightarrow>
        (case base_frame cv all_segments width height shot current_time st of
           Inl e \<Rightarrow> Inl e
         | Inr (frame, st') \<Rightarrow>
             Inr ((frame_idx,
                   create_subtitle_overlay_from_rst cv frame timing_info current_time), st')))"

fun render_frame_batch ::
    "cv2 \<Rightarrow> (int \<times> real) list \<Rightarrow> segment list \<Rightarrow> 'a timing_scheme list \<Rightarrow> int \<Rightarrow> int
     \<Rightarrow> string \<Rightarrow> render_state \<Rightarrow> error + (int \<times> image) list \<times> render_state" where
  "render_frame_batch cv [] all_segments timing_info width height shot st = Inr ([], st)"
| "render_frame_batch cv (frame_info # rest) all_segments timing_info width height shot st =
     (case render_frame cv all_segments timing_info width height shot frame_info st of
        Inl e \<Rightarrow> Inl e
      | Inr (rendered, st') \<Rightarrow>
         (case render_frame_batch cv rest all_segments timing_info width height shot st' of
            Inl e \<Rightarrow> Inl e
          | Inr (rendered_frames, st'') \<Rightarrow> Inr (rendered # rendered_frames, st'')))"

section \<open>Frame scheduling in create\_complete\_video\<close>

definition total_duration_of :: "segment list \<Rightarrow> real" where
  "total_duration_of all_segments =
     (case max_of (map end_time all_segments) of Inr m \<Rightarrow> m | Inl e \<Rightarrow> 0)"

definition total_frames_of :: "segment list \<Rightarrow> int \<Rightarrow> int" where
  "total_frames_of all_segments fps =
     py_int (total_duration_of all_segments * real_of_int fps)"

text \<open>
  \<^verbatim>\<open>max_workers = min(cpu_count, 8)
batch_size = max(30, total_frames // (max_workers * 4))\<close>
\<close>

definition batch_size_of :: "int \<Rightarrow> int \<Rightarrow> error + int" where
  "batch_size_of cpu_count total_frames =
     (let max_workers = min cpu_count 8
      in if max_workers * 4 = 0 then Inl ZeroDivisionError
         else Inr (max 30 (total_frames div (max_workers * 4))))"

text \<open>
  \<^verbatim>\<open>for i in range(0, total_frames, batch_size):
    batch_end = min(i + batch_size, total_frames)
    batch_info = [(j, j / fps) for j in range(i, batch_end)]
    frame_batches.append(batch_info)\<close>
  \<open>range\<close> raises on a step of zero and is empty on a negative step from 0 upwards.
\<close>

function batches_from :: "int \<Rightarrow> int \<Rightarrow> int \<Rightarrow> int \<Rightarrow> (int \<times> real) list list" where
  "batches_from i total_frames batch_size fps =
     (if 0 < batch_size \<and> i < total_frames
      then (let batch_end = min (i + batch_size) total_frames
            in map (\<lambda>j. (j, real_of_int j / real_of_int fps)) (py_range i batch_end))
           # batches_from (i + batch_size) total_frames batch_size fps
      else [])"
  by pat_completeness auto
termination
  by (relation "measure (\<lambda>(i, total_frames, batch_size, fps). nat (total_frames - i))") auto

declare batches_from.simps [simp del]

definition frame_batches :: "int \<Rightarrow> int \<Rightarrow> int \<Rightarrow> error + (int \<times> real) list list" where
  "frame_batches total_frames batch_size fps =
     (if batch_size = 0 then Inl ValueError
      else Inr (batches_from 0 total_frames batch_size fps))"

subsection \<open>Collecting the batches and producing frames\<close>

text \<open>
  Each future either returns the frames of its batch or raises; the loop over
  \<open>as_completed\<close> stores the frames of a successful batch and prints a line for a failed
  one:
  \<^verbatim>\<open>try:
    batch_frames = future.result()
    for frame_idx, frame in batch_frames:
        all_rendered_frames[frame_idx] = frame
    ...
except Exception as e:
    print(...)\<close>
\<close>

definition store_frames :: "(int \<rightharpoonup> image) \<Rightarrow> (int \<times> image) list \<Rightarrow> (int \<rightharpoonup> image)" where
  "store_frames all_rendered_frames batch_frames =
     fold (\<lambda>(frame_idx, frame) m. m(frame_idx \<mapsto> frame)) batch_frames all_rendered_frames"

definition batch_failed_line :: "int \<Rightarrow> string" where
  "batch_failed_line batch_idx = ''batch '' @ str_int batch_idx @ '' failed to render''"

fun collect_batches ::
    "(int \<times> (error + (int \<times> image) list)) list \<Rightarrow> (int \<rightharpoonup> image) \<times> string list
     \<Rightarrow> (int \<rightharpoonup> image) \<times> string list" where
  "collect_batches [] acc = acc"
| "collect_batches ((batch_idx, Inr batch_frames) # rest) (all_rendered_frames, out) =
     collect_batches rest (store_frames all_rendered_frames batch_frames, out)"
| "collect_batches ((batch_idx, Inl e) # rest) (all_rendered_frames, out) =
     collect_batches rest (all_rendered_frames, out @ [batch_failed_line batch_idx])"

text \<open>
  \<^verbatim>\<open>def make_frame(t):
    frame_idx = int(t * fps)
    if frame_idx in all_rendered_frames:
        return cv2.cvtColor(all_rendered_frames[frame_idx], cv2.COLOR_BGR2RGB)
    else:
        return np.zeros((height, width, 3), dtype=np.uint8)\<close>
\<close>

definition make_frame :: "(int \<rightharpoonup> image) \<Rightarrow> int \<Rightarrow> int \<Rightarrow> int \<Rightarrow> real \<Rightarrow> error + image" where
  "make_frame all_rendered_frames fps width height t =
     (let frame_idx = py_int (t * real_of_int fps)
      in case all_rendered_frames frame_idx of
           Some frame \<Rightarrow> Inr (cvtColor_BGR2RGB frame)
         | None \<Rightarrow> np_zeros height width)"

text \<open>
  What \<open>create_complete_video\<close> does with the collected batches: it builds
  \<open>VideoClip(make_frame, duration=total_duration)\<close> and hands it to \<open>write_videofile\<close>, under
  one of two file names depending on whether there is any audio.  No statement between the
  collecting loop and \<open>write_videofile\<close> looks at which frames are present.
\<close>

record video_clip =
  frame_function :: "real \<Rightarrow> error + image"
  video_duration :: real

record run_outcome =
  written_path :: string
  written_clip :: video_clip
  console :: "string list"

definition write_complete_video ::
    "string \<Rightarrow> (int \<times> (error + (int \<times> image) list)) list \<Rightarrow> real \<Rightarrow> int \<Rightarrow> int \<Rightarrow> int
     \<Rightarrow> bool \<Rightarrow> run_outcome" where
  "write_complete_video shot batch_results total_duration fps width height has_audio =
     (case collect_batches batch_results (Map.empty, []) of
        (all_rendered_frames, out) \<Rightarrow>
          \<lparr>written_path =
             (if has_audio then ''videos/'' @ shot @ ''_complete_video_with_audio.mp4''
              else ''videos/'' @ shot @ ''_complete_video.mp4''),
           written_clip =
             \<lparr>frame_function = make_frame all_rendered_frames fps width height,
              video_duration = total_duration\<rparr>,
           console = out\<rparr>)"

section \<open>Background music (video\_renderer.py, add\_audio\_to\_videos.py)\<close>










text \<open>
  The room that the zoom factor 1.2 of the horizontal pans leaves for the crop offset:
  \<open>zoom_width - width\<close>.
\<close>

definition pan_margin :: "int \<Rightarrow> int" where
  "pan_margin width = py_int (real_of_int width * 1.2) - width"

text \<open>The \<open>pan_distance\<close> of the horizontal pans: \<open>int(width * 0.3)\<close>.\<close>

definition pan_distance :: "int \<Rightarrow> int" where
  "pan_distance width = py_int (real_of_int width * 0.3)"


text \<open>
  The entry of the image cache for a path is absent or is a black image of the frame size.
\<close>

definition placeholder_cached :: "render_state \<Rightarrow> string \<Rightarrow> int \<Rightarrow> int \<Rightarrow> bool" where
  "placeholder_cached st path height width \<longleftrightarrow>
     (case image_cache st path of
        None \<Rightarrow> True
      | Some img \<Rightarrow> is_black img \<and> has_shape img height width)"

text \<open>
  The frame of a timestamp when the scene image is the black placeholder: the black
  \<open>height\<close> by \<open>width\<close> buffer itself when the subtitle text at that time is blank, and the
  text drawn on that buffer otherwise.
\<close>

definition subtitle_on_black ::
    "cv2 \<Rightarrow> 'a timing_scheme list \<Rightarrow> int \<Rightarrow> int \<Rightarrow> real \<Rightarrow> image" where
  "subtitle_on_black cv timing_info height width t =
     (let subtitle_text = get_subtitle_at_time timing_info t;
          black = replicate (nat height) (replicate (nat width) (0, 0, 0))
      in if py_strip subtitle_text = [] then black else draw_text cv black subtitle_text)"

text \<open>
  A second instance of the libraries, whose text overlay leaves a visible mark: it paints
  one white pixel in the row at two thirds of the frame height, where
  \<open>create_subtitle_overlay_from_rst\<close> anchors the text, at the middle column.
\<close>

definition mark_text :: "image \<Rightarrow> string \<Rightarrow> image" where
  "mark_text frame subtitle_text =
     (let y = nat (int (length frame) * 2 div 3)
      in frame[y := (frame ! y)[length (frame ! y) div 2 := (255, 255, 255)]])"

definition captioning_cv2 :: cv2 where
  "captioning_cv2 = plain_cv2\<lparr>draw_text := mark_text\<rparr>"

text \<open>
  The ordering part of the timeline invariants: start times never decrease; scene numbers
  never decrease, so the segments of one scene are consecutive; two neighbours of the same
  scene abut (the first ends where the second starts).
\<close>

definition timeline_ok :: "segment list \<Rightarrow> bool" where
  "timeline_ok segs \<longleftrightarrow>
     sorted (map start_time segs)
   \<and> sorted (map scene segs)
   \<and> successively (\<lambda>a b. scene a = scene b \<longrightarrow> end_time a = start_time b) segs"

subsection \<open>The timing list of the subtitle renderer\<close>

text \<open>
  \<open>create_complete_video\<close> renders with \<open>SubtitleRenderer(complete_rst_path)\<close>: the subtitle
  lookup does not see \<open>all_segments\<close> but what \<open>parse_rst_file\<close> reads back from the file
  that \<open>generate_complete_rst_content\<close> wrote.  Each segment is written as
  \<^verbatim>\<open>.. subtitle:: <scene>_<chunk>
   :start_time: {segment['start_time']:.2f}
   :end_time: {segment['end_time']:.2f}
   :duration: {segment['duration']:.2f}
   :text: {segment['text']}\<close>
  and read back with \<open>float(...)\<close> on the three numbers and \<open>.strip()\<close> on the text.  The
  format \<open>.2f\<close> rounds to two decimals, a tie going to the even neighbour.  The regular
  expression of \<open>parse_rst_file\<close> reads a number as \<open>[0-9.]+\<close> and a text from its first
  visible character to the next empty line, so the entries below are what the renderer
  holds when no time is negative and every text has a visible character and no line
  break; the texts of \<open>generate_complete_rst_file\<close>, words joined by single blanks, are
  of this form.
\<close>

definition round_half_even :: "real \<Rightarrow> int" where
  "round_half_even x =
     (let f = \<lfloor>x\<rfloor>; r = x - real_of_int f
      in if r < 1 / 2 then f else if 1 / 2 < r then f + 1 else if even f then f else f + 1)"

definition format_2f :: "real \<Rightarrow> real" where
  "format_2f x = real_of_int (round_half_even (x * 100)) / 100"

record rst_entry = timing +
  scene_name :: string

definition pad2 :: "int \<Rightarrow> string" where
  "pad2 n = (if 0 \<le> n \<and> n < 10 then CHR ''0'' # str_int n else str_int n)"

definition renderer_timing_info :: "segment list \<Rightarrow> rst_entry list" where
  "renderer_timing_info segments =
     map (\<lambda>seg. \<lparr>seg_text = py_strip (seg_text seg),
                 start_time = format_2f (start_time seg),
                 end_time = format_2f (end_time seg),
                 duration = format_2f (duration seg),
                 scene_name = ''scene'' @ pad2 (scene seg) @ ''_chunk'' @ pad2 (chunk seg)\<rparr>)
         segments"

section \<open>Subtitle lookup\<close>

lemma get_subtitle_none:
  "(\<And>info. info \<in> set ts \<Longrightarrow> \<not> covers info t) \<Longrightarrow> get_subtitle_at_time ts t = ''''"
  by (induction ts) (auto simp: covers_def)

lemma get_subtitle_first:
  "k < length ts \<Longrightarrow> covers (ts ! k) t \<Longrightarrow> (\<And>j. j < k \<Longrightarrow> \<not> covers (ts ! j) t)
   \<Longrightarrow> get_subtitle_at_time ts t = seg_text (ts ! k)"
proof (induction ts arbitrary: k)
  case Nil
  then show ?case by simp
next
  case (Cons info rest)
  show ?case
  proof (cases k)
    case 0
    with Cons.prems(2) show ?thesis by (simp add: covers_def)
  next
    case (Suc m)
    have head: "\<not> covers info t"
      using Cons.prems(3) [of 0] Suc by simp
    have "get_subtitle_at_time rest t = seg_text (rest ! m)"
    proof (rule Cons.IH)
      show "m < length rest" using Cons.prems(1) Suc by simp
      show "covers (rest ! m) t" using Cons.prems(2) Suc by simp
      fix j assume "j < m"
      then show "\<not> covers (rest ! j) t"
        using Cons.prems(3) [of "Suc j"] Suc by simp
    qed
    with head Suc show ?thesis by (auto simp: covers_def)
  qed
qed

text \<open>
  C6.  For every timing list and every timestamp \<open>t\<close>, \<open>get_subtitle_at_time\<close> returns the
  text of the first entry, in list order, with \<open>start_time \<le> t \<le> end_time\<close>, and the empty
  string when no entry contains \<open>t\<close>.
\<close>

theorem get_subtitle_at_time_first_match:
  "(k < length ts \<and> covers (ts ! k) t \<and> (\<forall>j<k. \<not> covers (ts ! j) t)
      \<longrightarrow> get_subtitle_at_time ts t = seg_text (ts ! k))
   \<and> ((\<forall>k<length ts. \<not> covers (ts ! k) t) \<longrightarrow> get_subtitle_at_time ts t = '''')"
proof (intro conjI impI)
  assume "k < length ts \<and> covers (ts ! k) t \<and> (\<forall>j<k. \<not> covers (ts ! j) t)"
  then show "get_subtitle_at_time ts t = seg_text (ts ! k)"
    by (intro get_subtitle_first) auto
next
  assume none: "\<forall>k<length ts. \<not> covers (ts ! k) t"
  show "get_subtitle_at_time ts t = ''''"
  proof (rule get_subtitle_none)
    fix info assume "info \<in> set ts"
    then obtain k where "k < length ts" "ts ! k = info"
      by (auto simp: in_set_conv_nth)
    with none show "\<not> covers info t" by auto
  qed
qed

text \<open>
  Two entries with a one-second gap: inside the second entry the lookup gives its text,
  inside the gap it gives the empty string.
\<close>

theorem get_subtitle_at_time_first_match_witness:
  "get_subtitle_at_time
     [\<lparr>seg_text = ''one'', start_time = 0, end_time = 1, duration = 1\<rparr>,
      \<lparr>seg_text = ''two'', start_time = 2, end_time = 3, duration = 1\<rparr>] (5 / 2) = ''two''
   \<and> get_subtitle_at_time
     [\<lparr>seg_text = ''one'', start_time = 0, end_time = 1, duration = 1\<rparr>,
      \<lparr>seg_text = ''two'', start_time = 2, end_time = 3, duration = 1\<rparr>] (3 / 2) = ''''"
proof -
  let ?ts = "[\<lparr>seg_text = ''one'', start_time = 0, end_time = 1, duration = 1\<rparr>,
              \<lparr>seg_text = ''two'', start_time = 2, end_time = 3, duration = 1\<rparr>]"
  have inside: "1 < length ?ts \<and> covers (?ts ! 1) (5 / 2) \<and> (\<forall>j<1. \<not> covers (?ts ! j) (5 / 2))"
    by (simp add: covers_def)
  have gap: "\<forall>k<length ?ts. \<not> covers (?ts ! k) (3 / 2)"
    by (simp add: covers_def less_Suc_eq)
  from get_subtitle_at_time_first_match [of 1 ?ts "5 / 2"] inside
  have a: "get_subtitle_at_time ?ts (5 / 2) = seg_text (?ts ! 1)" by blast
  from get_subtitle_at_time_first_match [of 0 ?ts "3 / 2"] gap
  have b: "get_subtitle_at_time ?ts (3 / 2) = ''''" by blast
  from a b show ?thesis by simp
qed

section \<open>Crop geometry\<close>

lemma py_int_nonneg: "0 \<le> x \<Longrightarrow> py_int x = \<lfloor>x\<rfloor>"
  by (simp add: py_int_def)

lemma zoomed_dim_ge:
  assumes "0 < n" "1 \<le> z"
  shows "n \<le> py_int (real_of_int n * z)"
proof -
  have "real_of_int n * 1 \<le> real_of_int n * z"
    using assms by (intro mult_left_mono) auto
  then have le: "real_of_int n \<le> real_of_int n * z" by simp
  then have "0 \<le> real_of_int n * z" using assms(1) by linarith
  then show ?thesis using le by (simp add: py_int_nonneg le_floor_iff)
qed

lemma py_int_mono:
  assumes "x \<le> y"
  shows "py_int x \<le> py_int y"
proof -
  consider "0 \<le> x" | "x < 0" "0 \<le> y" | "y < 0" using assms by linarith
  then show ?thesis
  proof cases
    case 1
    then show ?thesis using assms by (simp add: py_int_def floor_mono)
  next
    case 2
    have "\<lceil>x\<rceil> \<le> 0" using 2(1) by (simp add: ceiling_le_iff)
    moreover have "0 \<le> \<lfloor>y\<rfloor>" using 2(2) by simp
    moreover have "py_int x = \<lceil>x\<rceil>" "py_int y = \<lfloor>y\<rfloor>"
      using 2 by (simp_all add: py_int_def)
    ultimately show ?thesis by linarith
  next
    case 3
    then show ?thesis using assms by (simp add: py_int_def ceiling_mono)
  qed
qed

lemma easing_range:
  assumes "0 \<le> t" "t \<le> 1"
  shows "0 \<le> easing_function t \<and> easing_function t \<le> 1"
proof (cases "t < 0.5")
  case True
  have "0 \<le> t * t * t" using assms by simp
  moreover have "t * t * t \<le> (1/2) * (1/2) * (1/2)"
    using True assms by (intro mult_mono) auto
  ultimately show ?thesis using True by (simp add: easing_function_def)
next
  case False
  define u where "u = - 2 * t + 2"
  have u: "0 \<le> u" "u \<le> 1" using False assms by (auto simp: u_def)
  have "0 \<le> u ^ 3" using u by simp
  moreover have "u ^ 3 \<le> 1" using u by (simp add: power_le_one)
  ultimately show ?thesis using False by (simp add: easing_function_def u_def)
qed

lemma clamp_progress_range: "0 \<le> clamp_progress p \<and> clamp_progress p \<le> 1"
  by (auto simp: clamp_progress_def)

lemma zoom_in_window_in_bounds:
  assumes "0 < width" "0 < height" "0 \<le> p" "p \<le> 1"
  shows "in_bounds (zoom_in_window p width height) width height"
proof -
  define z where "z = 1.0 + (1.3 - 1.0) * p"
  have z: "1 \<le> z" using assms by (simp add: z_def)
  have "width \<le> py_int (real_of_int width * z)" "height \<le> py_int (real_of_int height * z)"
    using assms z by (auto intro: zoomed_dim_ge)
  then show ?thesis
    unfolding zoom_in_window_def in_bounds_def Let_def z_def by simp linarith
qed

lemma zoom_out_window_in_bounds:
  assumes "0 < width" "0 < height" "0 \<le> p" "p \<le> 1"
  shows "in_bounds (zoom_out_window p width height) width height"
proof -
  define z where "z = 1.3 + (1.0 - 1.3) * p"
  have z: "1 \<le> z" using assms by (simp add: z_def)
  have "width \<le> py_int (real_of_int width * z)" "height \<le> py_int (real_of_int height * z)"
    using assms z by (auto intro: zoomed_dim_ge)
  then show ?thesis
    unfolding zoom_out_window_def in_bounds_def Let_def z_def by simp linarith
qed

lemma pan_left_window_in_bounds:
  assumes "0 < width" "0 < height"
  shows "in_bounds (pan_left_window p width height) width height"
proof -
  have "width \<le> py_int (real_of_int width * 1.2)" "height \<le> py_int (real_of_int height * 1.2)"
    using assms zoomed_dim_ge [of width "1.2"] zoomed_dim_ge [of height "1.2"] by simp_all
  then show ?thesis
    unfolding pan_left_window_def in_bounds_def Let_def by simp linarith
qed

lemma pan_right_window_in_bounds:
  assumes "0 < width" "0 < height"
  shows "in_bounds (pan_right_window p width height) width height"
proof -
  have "width \<le> py_int (real_of_int width * 1.2)" "height \<le> py_int (real_of_int height * 1.2)"
    using assms zoomed_dim_ge [of width "1.2"] zoomed_dim_ge [of height "1.2"] by simp_all
  then show ?thesis
    unfolding pan_right_window_def in_bounds_def Let_def by simp linarith
qed

lemma pan_up_window_in_bounds:
  assumes "0 < width" "0 < height"
  shows "in_bounds (pan_up_window p width height) width height"
proof -
  have "width \<le> py_int (real_of_int width * 1.2)" "height \<le> py_int (real_of_int height * 1.2)"
    using assms zoomed_dim_ge [of width "1.2"] zoomed_dim_ge [of height "1.2"] by simp_all
  then show ?thesis
    unfolding pan_up_window_def in_bounds_def Let_def by simp linarith
qed

lemma pan_down_window_in_bounds:
  assumes "0 < width" "0 < height"
  shows "in_bounds (pan_down_window p width height) width height"
proof -
  have "width \<le> py_int (real_of_int width * 1.2)" "height \<le> py_int (real_of_int height * 1.2)"
    using assms zoomed_dim_ge [of width "1.2"] zoomed_dim_ge [of height "1.2"] by simp_all
  then show ?thesis
    unfolding pan_down_window_def in_bounds_def Let_def by simp linarith
qed

lemma zoom_pan_left_window_in_bounds:
  assumes "0 < width" "0 < height" "0 \<le> p" "p \<le> 1"
  shows "in_bounds (zoom_pan_left_window p width height) width height"
proof -
  define z where "z = 1.0 + (1.25 - 1.0) * p"
  have z: "1 \<le> z" using assms by (simp add: z_def)
  have "width \<le> py_int (real_of_int width * z)" "height \<le> py_int (real_of_int height * z)"
    using assms z by (auto intro: zoomed_dim_ge)
  then show ?thesis
    unfolding zoom_pan_left_window_def in_bounds_def Let_def z_def by simp linarith
qed

lemma zoom_pan_right_window_in_bounds:
  assumes "0 < width" "0 < height" "0 \<le> p" "p \<le> 1"
  shows "in_bounds (zoom_pan_right_window p width height) width height"
proof -
  define z where "z = 1.0 + (1.25 - 1.0) * p"
  have z: "1 \<le> z" using assms by (simp add: z_def)
  have "width \<le> py_int (real_of_int width * z)" "height \<le> py_int (real_of_int height * z)"
    using assms z by (auto intro: zoomed_dim_ge)
  then show ?thesis
    unfolding zoom_pan_right_window_def in_bounds_def Let_def z_def by simp linarith
qed

lemma zoom_pan_up_window_in_bounds:
  assumes "0 < width" "0 < height" "0 \<le> p" "p \<le> 1"
  shows "in_bounds (zoom_pan_up_window p width height) width height"
proof -
  define z where "z = 1.0 + (1.25 - 1.0) * p"
  have z: "1 \<le> z" using assms by (simp add: z_def)
  have "width \<le> py_int (real_of_int width * z)" "height \<le> py_int (real_of_int height * z)"
    using assms z by (auto intro: zoomed_dim_ge)
  then show ?thesis
    unfolding zoom_pan_up_window_def in_bounds_def Let_def z_def by simp linarith
qed

lemma zoom_pan_down_window_in_bounds:
  assumes "0 < width" "0 < height" "0 \<le> p" "p \<le> 1"
  shows "in_bounds (zoom_pan_down_window p width height) width height"
proof -
  define z where "z = 1.0 + (1.25 - 1.0) * p"
  have z: "1 \<le> z" using assms by (simp add: z_def)
  have "width \<le> py_int (real_of_int width * z)" "height \<le> py_int (real_of_int height * z)"
    using assms z by (auto intro: zoomed_dim_ge)
  then show ?thesis
    unfolding zoom_pan_down_window_def in_bounds_def Let_def z_def by simp linarith
qed

lemma spiral_window_in_bounds:
  assumes "0 < width" "0 < height" "0 \<le> p" "p \<le> 1"
  shows "in_bounds (spiral_window p width height) width height"
proof -
  define z where "z = 1.0 + (1.4 - 1.0) * p"
  have z: "1 \<le> z" using assms by (simp add: z_def)
  have "width \<le> py_int (real_of_int width * z)" "height \<le> py_int (real_of_int height * z)"
    using assms z by (auto intro: zoomed_dim_ge)
  then show ?thesis
    unfolding spiral_window_def in_bounds_def Let_def z_def by simp linarith
qed

lemma rotate_canvas_ge:
  assumes "0 < width" "0 < height" "0 \<le> p"
  shows "width \<le> canvas_size (rotate_zoom_layout p width height)"
    and "height \<le> canvas_size (rotate_zoom_layout p width height)"
    and "zoom_width (rotate_zoom_layout p width height)
           \<le> canvas_size (rotate_zoom_layout p width height)"
    and "zoom_height (rotate_zoom_layout p width height)
           \<le> canvas_size (rotate_zoom_layout p width height)"
    and "width \<le> zoom_width (rotate_zoom_layout p width height)"
    and "height \<le> zoom_height (rotate_zoom_layout p width height)"
proof -
  define z where "z = 1.1 + (1.3 - 1.1) * p"
  define m where "m = max width height"
  have z: "1 \<le> z" using assms by (simp add: z_def)
  have m: "0 < m" "width \<le> m" "height \<le> m" using assms by (auto simp: m_def)
  have zw: "width \<le> py_int (real_of_int width * z)"
    and zh: "height \<le> py_int (real_of_int height * z)"
    using assms z by (auto intro: zoomed_dim_ge)
  have mz: "0 \<le> real_of_int m * z" using m z by simp
  have wm: "real_of_int width * z \<le> real_of_int m * z"
    and hm: "real_of_int height * z \<le> real_of_int m * z"
    using m z by (auto intro!: mult_right_mono)
  have "real_of_int width * z \<le> real_of_int m * z * 1.5"
    using wm mz by linarith
  then have cw: "py_int (real_of_int width * z) \<le> py_int (real_of_int m * z * 1.5)"
    by (rule py_int_mono)
  have "real_of_int height * z \<le> real_of_int m * z * 1.5"
    using hm mz by linarith
  then have ch: "py_int (real_of_int height * z) \<le> py_int (real_of_int m * z * 1.5)"
    by (rule py_int_mono)
  have cs: "canvas_size (rotate_zoom_layout p width height) = py_int (real_of_int m * z * 1.5)"
    and lw: "zoom_width (rotate_zoom_layout p width height) = py_int (real_of_int width * z)"
    and lh: "zoom_height (rotate_zoom_layout p width height) = py_int (real_of_int height * z)"
    by (simp_all add: rotate_zoom_layout_def Let_def z_def m_def)
  show "width \<le> canvas_size (rotate_zoom_layout p width height)"
    and "height \<le> canvas_size (rotate_zoom_layout p width height)"
    and "zoom_width (rotate_zoom_layout p width height)
           \<le> canvas_size (rotate_zoom_layout p width height)"
    and "zoom_height (rotate_zoom_layout p width height)
           \<le> canvas_size (rotate_zoom_layout p width height)"
    and "width \<le> zoom_width (rotate_zoom_layout p width height)"
    and "height \<le> zoom_height (rotate_zoom_layout p width height)"
    using zw zh cw ch unfolding cs lw lh by linarith+
qed

lemma rotate_zoom_window_in_bounds:
  assumes "0 < width" "0 < height" "0 \<le> p"
  shows "in_bounds (rotate_zoom_window p width height) width height"
  using rotate_canvas_ge(1,2) [OF assms]
  unfolding rotate_zoom_window_def in_bounds_def Let_def by simp linarith


section \<open>Shapes of slices and pastes\<close>

lemma py_slice_length:
  assumes "0 \<le> a" "0 \<le> k" "a + k \<le> int (length xs)"
  shows "length (py_slice xs a (a + k)) = nat k"
proof -
  obtain n m where nm: "a = int n" "k = int m"
    using assms(1,2) by (metis nat_0_le)
  then have "n + m \<le> length xs" using assms(3) by simp
  then show ?thesis
    by (simp add: py_slice_def slice_index_def Let_def nm)
qed

lemma py_slice_member: "x \<in> set (py_slice xs a b) \<Longrightarrow> x \<in> set xs"
  unfolding py_slice_def Let_def by (auto dest: in_set_takeD in_set_dropD)

lemma np_crop_shape:
  assumes "has_shape img H W" "0 \<le> sy" "sy + h \<le> H" "0 \<le> sx" "sx + w \<le> W"
    and "0 \<le> h" "0 \<le> w"
  shows "has_shape (np_crop img sy sx h w) h w"
proof -
  have len: "int (length img) = H" and rows: "\<And>row. row \<in> set img \<Longrightarrow> int (length row) = W"
    using assms(1) by (auto simp: has_shape_def list_all_iff)
  have "length (py_slice img sy (sy + h)) = nat h"
    using assms len by (intro py_slice_length) auto
  moreover have "int (length (py_slice row sx (sx + w))) = w"
    if "row \<in> set (py_slice img sy (sy + h))" for row
  proof -
    have "row \<in> set img" using that by (rule py_slice_member)
    then have "int (length row) = W" by (rule rows)
    then have "length (py_slice row sx (sx + w)) = nat w"
      using assms by (intro py_slice_length) auto
    then show ?thesis using assms by simp
  qed
  ultimately show ?thesis
    using assms by (simp add: has_shape_def np_crop_def list_all_iff)
qed

lemma np_crop_black:
  assumes "is_black img"
  shows "is_black (np_crop img sy sx h w)"
proof -
  have px: "\<And>row p. row \<in> set img \<Longrightarrow> p \<in> set row \<Longrightarrow> p = (0, 0, 0)"
    using assms by (auto simp: is_black_def list_all_iff)
  have "p = (0, 0, 0)"
    if "row \<in> set (py_slice img sy (sy + h))" "p \<in> set (py_slice row sx (sx + w))" for row p
  proof -
    have "row \<in> set img" "p \<in> set row" using that by (auto dest: py_slice_member)
    then show ?thesis by (rule px)
  qed
  then show ?thesis by (auto simp: is_black_def np_crop_def list_all_iff)
qed

lemma resize_and_crop_shape:
  assumes cv: "cv2_contract cv" and img: "raster img" and pos: "0 < width" "0 < height"
    and win: "in_bounds win width height"
  shows "\<exists>out. resize_and_crop cv img win width height = Inr out \<and> has_shape out height width
           \<and> (is_black img \<longrightarrow> is_black out)"
proof -
  have bw: "0 < buf_width win" and bh: "0 < buf_height win"
    using win pos by (auto simp: in_bounds_def)
  have "sized_result img (resize cv img (buf_width win) (buf_height win))
          (buf_height win) (buf_width win)"
    using cv img bw bh by (simp add: cv2_contract_def)
  then obtain zoomed where z: "resize cv img (buf_width win) (buf_height win) = Inr zoomed"
    and zs: "has_shape zoomed (buf_height win) (buf_width win)"
    and zb: "is_black img \<longrightarrow> is_black zoomed"
    by (auto simp: sized_result_def split: sum.splits)
  have "has_shape (np_crop zoomed (start_y win) (start_x win) height width) height width"
    using zs win pos by (intro np_crop_shape [OF zs]) (auto simp: in_bounds_def)
  then show ?thesis
    using z zb by (simp add: resize_and_crop_def np_crop_black)
qed

lemma np_zeros_shape:
  assumes "0 \<le> h" "0 \<le> w"
  shows "\<exists>img. np_zeros h w = Inr img \<and> has_shape img h w \<and> is_black img"
  using assms by (simp add: np_zeros_def has_shape_def is_black_def list_all_iff)

lemma raster_shape: "has_shape img h w \<Longrightarrow> 0 < h \<Longrightarrow> 0 < w \<Longrightarrow> raster img"
  by (auto simp: raster_def)

lemma paste_row_length:
  assumes "0 \<le> sx" "nat sx + length srow \<le> length crow"
  shows "length (paste_row crow sx srow) = length crow"
  using assms by (simp add: paste_row_def)

lemma np_paste_shape:
  assumes canvas: "has_shape canvas C C" and src: "has_shape src h w"
    and b: "0 \<le> sy" "sy + h \<le> C" "0 \<le> sx" "sx + w \<le> C" "0 \<le> h" "0 \<le> w"
  shows "\<exists>out. np_paste canvas sy sx h w src = Inr out \<and> has_shape out C C
           \<and> (is_black canvas \<and> is_black src \<longrightarrow> is_black out)"
proof -
  have clen: "int (length canvas) = C"
    and crow: "\<And>row. row \<in> set canvas \<Longrightarrow> int (length row) = C"
    using canvas by (auto simp: has_shape_def list_all_iff)
  have slen: "int (length src) = h"
    and srow: "\<And>row. row \<in> set src \<Longrightarrow> int (length row) = w"
    using src by (auto simp: has_shape_def list_all_iff)
  have ok: "has_shape (np_crop canvas sy sx h w) h w"
    using b by (intro np_crop_shape [OF canvas]) auto
  define mid where "mid = map (\<lambda>(crow, srow). paste_row crow sx srow)
                      (zip (take (nat h) (drop (nat sy) canvas)) src)"
  define out where "out = take (nat sy) canvas @ mid @ drop (nat sy + nat h) canvas"
  have eq: "np_paste canvas sy sx h w src = Inr out"
    using ok src by (simp add: np_paste_def out_def mid_def)
  have midlen: "length mid = nat h"
    using clen slen b by (simp add: mid_def)
  have outlen: "int (length out) = C"
    using clen b midlen by (simp add: out_def)
  have midrow: "int (length row) = C" if "row \<in> set mid" for row
  proof -
    from that obtain cr sr where in_zip: "(cr, sr) \<in> set (zip (take (nat h) (drop (nat sy) canvas)) src)"
      and row: "row = paste_row cr sx sr"
      by (auto simp: mid_def)
    have "cr \<in> set canvas"
      using in_zip by (meson in_set_takeD in_set_dropD set_zip_leftD)
    then have c: "int (length cr) = C" by (rule crow)
    have "sr \<in> set src" using in_zip by (meson set_zip_rightD)
    then have s: "int (length sr) = w" by (rule srow)
    have "length (paste_row cr sx sr) = length cr"
      using c s b by (intro paste_row_length) auto
    then show ?thesis using c row by simp
  qed
  have outrow: "int (length row) = C" if "row \<in> set out" for row
  proof -
    from that consider "row \<in> set (take (nat sy) canvas)" | "row \<in> set mid"
      | "row \<in> set (drop (nat sy + nat h) canvas)"
      by (auto simp: out_def)
    then show ?thesis
      by cases (auto intro: crow midrow dest: in_set_takeD in_set_dropD)
  qed
  have shape: "has_shape out C C"
    using outlen outrow by (simp add: has_shape_def list_all_iff)
  have black: "is_black out" if cb: "is_black canvas" and sb: "is_black src"
  proof -
    have cpx: "\<And>row p. row \<in> set canvas \<Longrightarrow> p \<in> set row \<Longrightarrow> p = (0, 0, 0)"
      using cb by (auto simp: is_black_def list_all_iff)
    have spx: "\<And>row p. row \<in> set src \<Longrightarrow> p \<in> set row \<Longrightarrow> p = (0, 0, 0)"
      using sb by (auto simp: is_black_def list_all_iff)
    have "p = (0, 0, 0)" if "row \<in> set out" "p \<in> set row" for row p
    proof -
      from that(1) consider "row \<in> set canvas" | "row \<in> set mid"
        by (auto simp: out_def dest: in_set_takeD in_set_dropD)
      then show ?thesis
      proof cases
        case 1
        then show ?thesis using that(2) by (rule cpx)
      next
        case 2
        then obtain cr sr where
          in_zip: "(cr, sr) \<in> set (zip (take (nat h) (drop (nat sy) canvas)) src)"
          and row: "row = paste_row cr sx sr"
          by (auto simp: mid_def)
        have cr: "cr \<in> set canvas"
          using in_zip by (meson in_set_takeD in_set_dropD set_zip_leftD)
        have sr: "sr \<in> set src" using in_zip by (meson set_zip_rightD)
        from that(2) row consider "p \<in> set cr" | "p \<in> set sr"
          by (auto simp: paste_row_def dest: in_set_takeD in_set_dropD)
        then show ?thesis
          by cases (auto intro: cpx [OF cr] spx [OF sr])
      qed
    qed
    then show ?thesis by (auto simp: is_black_def list_all_iff)
  qed
  show ?thesis using eq shape black by blast
qed

section \<open>Results of the effects\<close>

lemma apply_rotate_zoom_shape:
  assumes cv: "cv2_contract cv" and img: "raster img" and pos: "0 < width" "0 < height"
    and p: "0 \<le> p"
  shows "\<exists>out. apply_rotate_zoom cv img p width height = Inr out \<and> has_shape out height width
           \<and> (is_black img \<longrightarrow> is_black out)"
proof -
  define lay where "lay = rotate_zoom_layout p width height"
  define C where "C = canvas_size lay"
  define zw where "zw = zoom_width lay"
  define zh where "zh = zoom_height lay"
  note ge = rotate_canvas_ge [OF pos p, folded lay_def C_def zw_def zh_def]
  have Cpos: "0 < C" and zpos: "0 < zw" "0 < zh" using ge pos by linarith+
  obtain canvas where c: "np_zeros C C = Inr canvas" and cs: "has_shape canvas C C"
    and cb: "is_black canvas"
    using np_zeros_shape [of C C] Cpos by auto
  have "sized_result img (resize cv img zw zh) zh zw"
    using cv img zpos by (simp add: cv2_contract_def)
  then obtain zoomed where z: "resize cv img zw zh = Inr zoomed"
    and zs: "has_shape zoomed zh zw" and zb: "is_black img \<longrightarrow> is_black zoomed"
    by (auto simp: sized_result_def split: sum.splits)
  have py: "paste_y lay = (C - zh) div 2" and px: "paste_x lay = (C - zw) div 2"
    by (simp_all add: lay_def C_def zw_def zh_def rotate_zoom_layout_def Let_def)
  obtain canvas' where pa: "np_paste canvas (paste_y lay) (paste_x lay) zh zw zoomed = Inr canvas'"
    and ps: "has_shape canvas' C C"
    and pb: "is_black canvas \<and> is_black zoomed \<longrightarrow> is_black canvas'"
  proof -
    have "0 \<le> (C - zh) div 2" "(C - zh) div 2 + zh \<le> C"
      "0 \<le> (C - zw) div 2" "(C - zw) div 2 + zw \<le> C" "0 \<le> zh" "0 \<le> zw"
      using ge zpos by auto
    from np_paste_shape [OF cs zs this] that show thesis
      unfolding py px by blast
  qed
  have "raster canvas'" by (rule raster_shape [OF ps Cpos Cpos])
  then have "sized_result canvas'
     (warp_rotate cv canvas' (C div 2, C div 2) (rotation_angle lay) C C) C C"
    using cv Cpos by (simp add: cv2_contract_def)
  then obtain rotated where
    r: "warp_rotate cv canvas' (C div 2, C div 2) (rotation_angle lay) C C = Inr rotated"
    and rs: "has_shape rotated C C" and rb: "is_black canvas' \<longrightarrow> is_black rotated"
    by (auto simp: sized_result_def split: sum.splits)
  define win where "win = rotate_zoom_window p width height"
  have win: "in_bounds win width height"
    unfolding win_def using pos p by (rule rotate_zoom_window_in_bounds)
  have wb: "buf_width win = C" "buf_height win = C"
    by (simp_all add: win_def rotate_zoom_window_def Let_def C_def lay_def)
  have shape: "has_shape (np_crop rotated (start_y win) (start_x win) height width) height width"
    using win pos wb by (intro np_crop_shape [OF rs]) (auto simp: in_bounds_def)
  have eq: "apply_rotate_zoom cv img p width height
              = Inr (np_crop rotated (start_y win) (start_x win) height width)"
    using c z pa r
    by (simp add: apply_rotate_zoom_def Let_def lay_def [symmetric] C_def [symmetric]
        zw_def [symmetric] zh_def [symmetric] win_def [symmetric])
  have "is_black (np_crop rotated (start_y win) (start_x win) height width)" if "is_black img"
    using that zb cb pb rb by (intro np_crop_black) blast
  then show ?thesis using eq shape by blast
qed

lemma apply_ken_burns_effect_sized:
  assumes cv: "cv2_contract cv" and img: "raster img" and pos: "0 < width" "0 < height"
  shows "\<exists>out. apply_ken_burns_effect cv img progress effect_type width height = Inr out
           \<and> has_shape out height width \<and> (is_black img \<longrightarrow> is_black out)"
proof -
  define e where "e = easing_function (clamp_progress progress)"
  have e: "0 \<le> e" "e \<le> 1"
    using easing_range [of "clamp_progress progress"] clamp_progress_range [of progress]
    by (auto simp: e_def)
  note crop = resize_and_crop_shape [OF cv img pos]
  note w = zoom_in_window_in_bounds [OF pos e] zoom_out_window_in_bounds [OF pos e]
    pan_left_window_in_bounds [OF pos, of e] pan_right_window_in_bounds [OF pos, of e]
    pan_up_window_in_bounds [OF pos, of e] pan_down_window_in_bounds [OF pos, of e]
    zoom_pan_left_window_in_bounds [OF pos e] zoom_pan_right_window_in_bounds [OF pos e]
    zoom_pan_up_window_in_bounds [OF pos e] zoom_pan_down_window_in_bounds [OF pos e]
    spiral_window_in_bounds [OF pos e]
  note each = w [THEN crop] apply_rotate_zoom_shape [OF cv img pos e(1)]
  show ?thesis
    unfolding apply_ken_burns_effect_def Let_def e_def [symmetric]
      apply_zoom_in_def apply_zoom_out_def apply_pan_left_def apply_pan_right_def
      apply_pan_up_def apply_pan_down_def apply_zoom_pan_left_def apply_zoom_pan_right_def
      apply_zoom_pan_up_def apply_zoom_pan_down_def apply_spiral_def
    using each by simp
qed

lemma nearest_index:
  fixes i n L :: int
  assumes "0 \<le> i" "i < n" "0 < L"
  shows "0 \<le> i * L div n \<and> i * L div n < L"
proof -
  define q where "q = i * L div n"
  have n: "0 < n" using assms by linarith
  have split: "i * L = n * q + i * L mod n" by (simp add: q_def)
  have r: "0 \<le> i * L mod n" using n by simp
  have lt: "i * L < n * L" using assms by (intro mult_strict_right_mono) auto
  have "q < L"
  proof (rule ccontr)
    assume "\<not> q < L"
    then have "n * L \<le> n * q" using n by (intro mult_left_mono) auto
    with split r lt show False by linarith
  qed
  moreover have "0 \<le> q"
    unfolding q_def using assms div_int_pos_iff by fastforce
  ultimately show ?thesis by (simp add: q_def)
qed

lemma nearest_length: "0 \<le> n \<Longrightarrow> length (nearest xs n) = nat n"
  by (simp add: nearest_def)

lemma nearest_member:
  assumes "x \<in> set (nearest xs n)" "xs \<noteq> []"
  shows "x \<in> set xs"
proof -
  from assms(1) obtain i where i: "0 \<le> i" "i \<le> n - 1"
    and x: "x = xs ! nat (i * int (length xs) div n)"
    by (auto simp: nearest_def)
  have "0 < int (length xs)" using assms(2) by simp
  with i have "0 \<le> i * int (length xs) div n \<and> i * int (length xs) div n < int (length xs)"
    by (intro nearest_index) auto
  then have "nat (i * int (length xs) div n) < length xs" by linarith
  then show ?thesis unfolding x by (rule nth_mem)
qed

lemma raster_nonempty: "raster img \<Longrightarrow> img \<noteq> [] \<and> hd img \<noteq> []"
  by (cases img) (auto simp: raster_def has_shape_def)

lemma resize_nearest_sized:
  assumes "raster img" "0 < w" "0 < h"
  shows "sized_result img (resize_nearest img w h) h w"
proof -
  have ne: "img \<noteq> []" "hd img \<noteq> []" using assms(1) raster_nonempty by auto
  have eq: "resize_nearest img w h = Inr (map (\<lambda>row. nearest row w) (nearest img h))"
    using ne assms by (simp add: resize_nearest_def)
  have shape: "has_shape (map (\<lambda>row. nearest row w) (nearest img h)) h w"
    using assms by (simp add: has_shape_def list_all_iff nearest_length)
  have black: "is_black (map (\<lambda>row. nearest row w) (nearest img h))" if b: "is_black img"
  proof -
    have px: "\<And>row p. row \<in> set img \<Longrightarrow> p \<in> set row \<Longrightarrow> p = (0, 0, 0)"
      using b by (auto simp: is_black_def list_all_iff)
    have "p = (0, 0, 0)" if "row \<in> set (nearest img h)" "p \<in> set (nearest row w)" for row p
    proof -
      have row: "row \<in> set img" using that(1) ne(1) by (rule nearest_member)
      have "row \<noteq> []" using row assms(1)
        by (auto simp: raster_def has_shape_def list_all_iff)
      with that(2) have "p \<in> set row" by (rule nearest_member)
      with row show ?thesis by (rule px)
    qed
    then show ?thesis by (auto simp: is_black_def list_all_iff)
  qed
  show ?thesis using eq shape black by (simp add: sized_result_def)
qed

lemma plain_cv2_contract: "cv2_contract plain_cv2"
  by (simp add: cv2_contract_def plain_cv2_def resize_nearest_sized)

section \<open>Effect engine: output size and crop windows\<close>

text \<open>
  C2.  For every effect kind (an unknown kind is rendered as \<open>zoom_in\<close>) and every progress
  value, clamped to \<open>[0, 1]\<close> and eased as \<open>apply_ken_burns_effect\<close> does, the crop window
  lies within the buffer it is taken from: both start indices are non-negative and start
  plus target dimension does not exceed the buffer's dimension.  For every kind other than
  \<open>rotate_zoom\<close> the result of \<open>apply_ken_burns_effect\<close> is the slice at that window of the
  resized image; for \<open>rotate_zoom\<close> the window is the one that \<open>apply_rotate_zoom\<close> cuts out
  of the rotated canvas.
\<close>

theorem ken_burns_crop_window_in_bounds:
  assumes "0 < width" "0 < height"
  shows "in_bounds (ken_burns_window progress effect_type width height) width height
       \<and> (effect_type \<noteq> ROTATE_ZOOM \<longrightarrow>
            apply_ken_burns_effect cv img progress effect_type width height
              = resize_and_crop cv img (ken_burns_window progress effect_type width height)
                  width height)"
proof
  define e where "e = easing_function (clamp_progress progress)"
  have e: "0 \<le> e" "e \<le> 1"
    using easing_range [of "clamp_progress progress"] clamp_progress_range [of progress]
    by (auto simp: e_def)
  note w = zoom_in_window_in_bounds [OF assms e] zoom_out_window_in_bounds [OF assms e]
    pan_left_window_in_bounds [OF assms, of e] pan_right_window_in_bounds [OF assms, of e]
    pan_up_window_in_bounds [OF assms, of e] pan_down_window_in_bounds [OF assms, of e]
    zoom_pan_left_window_in_bounds [OF assms e] zoom_pan_right_window_in_bounds [OF assms e]
    zoom_pan_up_window_in_bounds [OF assms e] zoom_pan_down_window_in_bounds [OF assms e]
    rotate_zoom_window_in_bounds [OF assms e(1)] spiral_window_in_bounds [OF assms e]
  show "in_bounds (ken_burns_window progress effect_type width height) width height"
    unfolding ken_burns_window_def Let_def e_def [symmetric]
    using w by simp
  show "effect_type \<noteq> ROTATE_ZOOM \<longrightarrow>
          apply_ken_burns_effect cv img progress effect_type width height
            = resize_and_crop cv img (ken_burns_window progress effect_type width height)
                width height"
    by (simp add: apply_ken_burns_effect_def ken_burns_window_def Let_def
        apply_zoom_in_def apply_zoom_out_def apply_pan_left_def apply_pan_right_def
        apply_pan_up_def apply_pan_down_def apply_zoom_pan_left_def apply_zoom_pan_right_def
        apply_zoom_pan_up_def apply_zoom_pan_down_def apply_spiral_def)
qed

text \<open>
  The windows of \<open>pan_left\<close> at progress 1 and of \<open>zoom_out\<close> at progress 0, for the
  renderer's frame size 1440 by 1920.
\<close>

theorem ken_burns_crop_window_in_bounds_witness:
  "in_bounds (ken_burns_window 1 ''pan_left'' 1440 1920) 1440 1920
   \<and> ken_burns_window 1 ''pan_left'' 1440 1920
       = \<lparr>buf_width = 1728, buf_height = 2304, start_x = 0, start_y = 192\<rparr>
   \<and> in_bounds (ken_burns_window 0 ''zoom_out'' 1440 1920) 1440 1920
   \<and> ken_burns_window 0 ''zoom_out'' 1440 1920
       = \<lparr>buf_width = 1872, buf_height = 2496, start_x = 216, start_y = 288\<rparr>"
proof -
  have pos: "(0::int) < 1440" "(0::int) < 1920" by simp_all
  have a: "in_bounds (ken_burns_window 1 ''pan_left'' 1440 1920) 1440 1920"
    using ken_burns_crop_window_in_bounds [OF pos, of 1 "''pan_left''"] by blast
  have b: "in_bounds (ken_burns_window 0 ''zoom_out'' 1440 1920) 1440 1920"
    using ken_burns_crop_window_in_bounds [OF pos, of 0 "''zoom_out''"] by blast
  have c: "ken_burns_window 1 ''pan_left'' 1440 1920
       = \<lparr>buf_width = 1728, buf_height = 2304, start_x = 0, start_y = 192\<rparr>"
    by (simp add: ken_burns_window_def Let_def clamp_progress_def easing_function_def
        ZOOM_IN_def ZOOM_OUT_def PAN_LEFT_def pan_left_window_def py_int_def)
  have d: "ken_burns_window 0 ''zoom_out'' 1440 1920
       = \<lparr>buf_width = 1872, buf_height = 2496, start_x = 216, start_y = 288\<rparr>"
    by (simp add: ken_burns_window_def Let_def clamp_progress_def easing_function_def
        ZOOM_IN_def ZOOM_OUT_def zoom_out_window_def py_int_def)
  from a b c d show ?thesis by blast
qed

text \<open>
  C1.  For every image (a raster with at least one pixel, as \<open>cv2.resize\<close> requires of its
  source), every effect kind, every target width and height greater than 0 and every
  progress value, in or out of \<open>[0, 1]\<close>, \<open>apply_ken_burns_effect\<close> returns a buffer, and the
  buffer has exactly \<open>height\<close> rows of \<open>width\<close> pixels.
\<close>

theorem apply_ken_burns_effect_shape:
  assumes "cv2_contract cv" "raster img" "0 < width" "0 < height"
  shows "\<exists>out. apply_ken_burns_effect cv img progress effect_type width height = Inr out
           \<and> has_shape out height width"
  using apply_ken_burns_effect_sized [OF assms] by blast

text \<open>
  A one-pixel image, target size 3 by 2, at the out-of-range progress values \<open>-0.2\<close> and
  \<open>1.5\<close>.
\<close>

theorem apply_ken_burns_effect_shape_witness:
  "(\<exists>out. apply_ken_burns_effect plain_cv2 [[(1, 2, 3)]] (- 0.2) ''pan_left'' 3 2 = Inr out
       \<and> has_shape out 2 3)
   \<and> (\<exists>out. apply_ken_burns_effect plain_cv2 [[(1, 2, 3)]] 1.5 ''rotate_zoom'' 3 2 = Inr out
       \<and> has_shape out 2 3)"
proof -
  have img: "raster [[(1, 2, 3)]]"
    unfolding raster_def has_shape_def by (intro exI [of _ 1]) simp
  have pos: "(0::int) < 3" "(0::int) < 2" by simp_all
  from apply_ken_burns_effect_shape [OF plain_cv2_contract img pos]
  show ?thesis by blast
qed

section \<open>Horizontal pans\<close>

lemma pan_margin_le_distance:
  assumes "0 < n"
  shows "py_int (real_of_int n * 1.2) - n \<le> py_int (real_of_int n * 0.3)"
proof -
  have "real_of_int n * 1.2 \<le> real_of_int n * 0.3 + real_of_int n"
    using assms by simp
  then have "\<lfloor>real_of_int n * 1.2\<rfloor> \<le> \<lfloor>real_of_int n * 0.3 + real_of_int n\<rfloor>"
    by (rule floor_mono)
  also have "\<dots> = \<lfloor>real_of_int n * 0.3\<rfloor> + n" by (rule floor_add_int [symmetric])
  finally show ?thesis
    using assms by (simp add: py_int_def)
qed

lemma pan_distance_nonneg: "0 < n \<Longrightarrow> 0 \<le> py_int (real_of_int n * 0.3)"
  by (simp add: py_int_def)

lemma pan_left_start_x:
  "start_x (pan_left_window p width height) =
     max 0 (min (py_int (real_of_int (py_int (real_of_int width * 1.2) - width)
                          - p * real_of_int (py_int (real_of_int width * 0.3))))
                (py_int (real_of_int width * 1.2) - width))"
  by (simp add: pan_left_window_def Let_def)

lemma pan_right_start_x:
  "start_x (pan_right_window p width height) =
     max 0 (min (py_int (p * real_of_int (py_int (real_of_int width * 0.3))))
                (py_int (real_of_int width * 1.2) - width))"
  by (simp add: pan_right_window_def Let_def)

text \<open>
  C5, as the code has it.  For \<open>pan_left\<close> and \<open>pan_right\<close> the zoom factor is fixed at 1.2
  (the buffer is \<open>int(1.2 * width)\<close> by \<open>int(1.2 * height)\<close> at every progress).  With
  \<open>margin = int(1.2 * width) - width\<close> and \<open>distance = int(0.3 * width)\<close>, the horizontal
  offset at eased progress \<open>p\<close> is \<open>int(margin - p * distance)\<close> for \<open>pan_left\<close> and
  \<open>int(p * distance)\<close> for \<open>pan_right\<close>, each clamped to \<open>[0, margin]\<close>: it moves by
  \<open>distance\<close> pixels per unit of eased progress until the clamp holds it.  The margin is at
  most the distance, so over eased progress 0 to 1 the offset sweeps exactly the margin.
  The two kinds move in opposite directions: \<open>pan_left\<close> starts at the right edge (offset =
  margin) and never moves right, ending at 0; \<open>pan_right\<close> starts at 0 and never moves left,
  ending at the margin.
\<close>

theorem pan_sweep_is_zoom_margin:
  assumes "0 < width"
  shows "buf_width (pan_left_window p width height) = py_int (real_of_int width * 1.2)
       \<and> buf_width (pan_right_window p width height) = py_int (real_of_int width * 1.2)
       \<and> buf_height (pan_left_window p width height) = py_int (real_of_int height * 1.2)
       \<and> buf_height (pan_right_window p width height) = py_int (real_of_int height * 1.2)
       \<and> start_x (pan_left_window p width height)
           = max 0 (min (py_int (real_of_int (pan_margin width)
                                  - p * real_of_int (pan_distance width)))
                        (pan_margin width))
       \<and> start_x (pan_right_window p width height)
           = max 0 (min (py_int (p * real_of_int (pan_distance width))) (pan_margin width))
       \<and> start_x (pan_left_window 0 width height) = pan_margin width
       \<and> start_x (pan_left_window 1 width height) = 0
       \<and> start_x (pan_right_window 0 width height) = 0
       \<and> start_x (pan_right_window 1 width height) = pan_margin width
       \<and> (p \<le> q \<longrightarrow> start_x (pan_left_window q width height)
                        \<le> start_x (pan_left_window p width height))
       \<and> (p \<le> q \<longrightarrow> start_x (pan_right_window p width height)
                        \<le> start_x (pan_right_window q width height))
       \<and> 0 \<le> pan_margin width
       \<and> pan_margin width \<le> pan_distance width"
proof -
  define m where "m = py_int (real_of_int width * 1.2) - width"
  define d where "d = py_int (real_of_int width * 0.3)"
  have m0: "0 \<le> m"
    using zoomed_dim_ge [of width "1.2"] assms by (simp add: m_def)
  have md: "m \<le> d" unfolding m_def d_def using assms by (rule pan_margin_le_distance)
  have d0: "0 \<le> d" unfolding d_def using assms by (rule pan_distance_nonneg)
  have L: "\<And>x. start_x (pan_left_window x width height)
             = max 0 (min (py_int (real_of_int m - x * real_of_int d)) m)"
    by (simp add: pan_left_start_x m_def d_def)
  have R: "\<And>x. start_x (pan_right_window x width height)
             = max 0 (min (py_int (x * real_of_int d)) m)"
    by (simp add: pan_right_start_x m_def d_def)
  have pi: "\<And>k. py_int (real_of_int k) = k" by (simp add: py_int_def)
  have l0: "start_x (pan_left_window 0 width height) = m"
    using m0 by (simp add: L pi)
  have "py_int (real_of_int (m - d)) = m - d" by (rule pi)
  then have l1: "start_x (pan_left_window 1 width height) = 0"
    using md by (simp add: L)
  have r0: "start_x (pan_right_window 0 width height) = 0"
    using m0 by (simp add: R py_int_def)
  have r1: "start_x (pan_right_window 1 width height) = m"
    using m0 md by (simp add: R pi)
  have lmono: "start_x (pan_left_window q width height)
                 \<le> start_x (pan_left_window p width height)" if "p \<le> q"
  proof -
    have "p * real_of_int d \<le> q * real_of_int d"
      using that d0 by (intro mult_right_mono) auto
    then have "py_int (real_of_int m - q * real_of_int d)
                 \<le> py_int (real_of_int m - p * real_of_int d)"
      by (intro py_int_mono) linarith
    then show ?thesis unfolding L by linarith
  qed
  have rmono: "start_x (pan_right_window p width height)
                 \<le> start_x (pan_right_window q width height)" if "p \<le> q"
  proof -
    have "p * real_of_int d \<le> q * real_of_int d"
      using that d0 by (intro mult_right_mono) auto
    then have "py_int (p * real_of_int d) \<le> py_int (q * real_of_int d)"
      by (rule py_int_mono)
    then show ?thesis unfolding R by linarith
  qed
  have bufs: "buf_width (pan_left_window p width height) = py_int (real_of_int width * 1.2)"
    "buf_width (pan_right_window p width height) = py_int (real_of_int width * 1.2)"
    "buf_height (pan_left_window p width height) = py_int (real_of_int height * 1.2)"
    "buf_height (pan_right_window p width height) = py_int (real_of_int height * 1.2)"
    by (simp_all add: pan_left_window_def pan_right_window_def Let_def)
  show ?thesis
    unfolding pan_margin_def pan_distance_def m_def [symmetric] d_def [symmetric]
    using bufs L [of p] R [of p] l0 l1 r0 r1 lmono rmono m0 md
    unfolding m_def d_def by blast
qed

text \<open>
  Width 100: the margin is 20 pixels and the distance 30 pixels; at eased progress 1/3 both
  offsets are at 10 pixels.
\<close>

theorem pan_sweep_is_zoom_margin_witness:
  "start_x (pan_left_window 0 100 100) = 20
   \<and> start_x (pan_left_window (1 / 3) 100 100) = 10
   \<and> start_x (pan_left_window 1 100 100) = 0
   \<and> start_x (pan_right_window 0 100 100) = 0
   \<and> start_x (pan_right_window (1 / 3) 100 100) = 10
   \<and> start_x (pan_right_window 1 100 100) = 20
   \<and> start_x (pan_left_window (2 / 3) 100 100) \<le> start_x (pan_left_window (1 / 3) 100 100)"
proof -
  have pos: "(0::int) < 100" by simp
  have m: "pan_margin 100 = 20" by (simp add: pan_margin_def py_int_def)
  have d: "pan_distance 100 = 30" by (simp add: pan_distance_def py_int_def)
  have le: "(1 / 3 :: real) \<le> 2 / 3" by simp
  from pan_sweep_is_zoom_margin [OF pos, of "1 / 3" 100 "2 / 3"] le
  show ?thesis unfolding m d by (simp add: py_int_def)
qed

text \<open>
  At width 100 the pan distance is 30 pixels, yet the offset of either kind sweeps 20
  pixels, and has already reached its end at eased progress 2/3.
\<close>

theorem pan_sweep_30_percent_counterexample:
  "py_int (real_of_int 100 * 0.3) = 30
   \<and> start_x (pan_left_window 0 100 100) - start_x (pan_left_window 1 100 100) = 20
   \<and> start_x (pan_right_window 1 100 100) - start_x (pan_right_window 0 100 100) = 20
   \<and> start_x (pan_left_window (2 / 3) 100 100) = 0
   \<and> start_x (pan_right_window (2 / 3) 100 100) = 20"
  by (simp add: pan_left_window_def pan_right_window_def Let_def py_int_def)

section \<open>Frame count and batches\<close>

lemma batches_from_indices:
  assumes "0 < batch_size"
  shows "concat (map (map fst) (batches_from i total_frames batch_size fps))
           = py_range i total_frames"
  using assms
proof (induction i total_frames batch_size fps rule: batches_from.induct)
  case (1 i total_frames batch_size fps)
  show ?case
  proof (cases "i < total_frames")
    case False
    then show ?thesis
      by (subst batches_from.simps) (simp add: py_range_def)
  next
    case True
    define batch_end where "batch_end = min (i + batch_size) total_frames"
    have be: "i < batch_end" "batch_end \<le> total_frames"
      using True "1.prems" by (auto simp: batch_end_def)
    have rest: "concat (map (map fst) (batches_from (i + batch_size) total_frames batch_size fps))
                  = py_range batch_end total_frames"
    proof (cases "i + batch_size < total_frames")
      case True
      then have "batch_end = i + batch_size" by (simp add: batch_end_def)
      then show ?thesis
        using "1.IH" "1.prems" \<open>i < total_frames\<close> by simp
    next
      case False
      then have "batch_end = total_frames" by (simp add: batch_end_def)
      moreover have "batches_from (i + batch_size) total_frames batch_size fps = []"
        using False by (subst batches_from.simps) simp
      ultimately show ?thesis by (simp add: py_range_def)
    qed
    have "map fst (map (\<lambda>j. (j, real_of_int j / real_of_int fps)) (py_range i batch_end))
            = py_range i batch_end"
      by (simp add: comp_def)
    moreover have "py_range i batch_end @ py_range batch_end total_frames
                     = py_range i total_frames"
    proof (cases "batch_end = total_frames")
      case True
      then show ?thesis by (simp add: py_range_def)
    next
      case False
      then have "batch_end \<le> total_frames - 1" using be by simp
      with be show ?thesis
        using upto_split1 [of i batch_end "total_frames - 1"] by (simp add: py_range_def)
    qed
    ultimately show ?thesis
      using True "1.prems" rest
      by (subst batches_from.simps) (simp add: Let_def batch_end_def)
  qed
qed

lemma batches_from_nonempty:
  assumes "0 < batch_size"
  shows "b \<in> set (batches_from i total_frames batch_size fps) \<Longrightarrow> b \<noteq> []"
  using assms
proof (induction i total_frames batch_size fps rule: batches_from.induct)
  case (1 i total_frames batch_size fps)
  from "1.prems"(1) have lt: "i < total_frames"
    by (subst (asm) batches_from.simps) (auto split: if_splits)
  from "1.prems"(1) lt "1.prems"(2)
  consider "b = map (\<lambda>j. (j, real_of_int j / real_of_int fps))
                  (py_range i (min (i + batch_size) total_frames))"
    | "b \<in> set (batches_from (i + batch_size) total_frames batch_size fps)"
    by (subst (asm) batches_from.simps) (auto simp: Let_def)
  then show ?case
  proof cases
    case 1
    have "i \<le> min (i + batch_size) total_frames - 1" using lt \<open>0 < batch_size\<close> by simp
    then have "py_range i (min (i + batch_size) total_frames) \<noteq> []"
      by (simp add: py_range_def upto_rec1)
    with 1 show ?thesis by simp
  next
    case 2
    then show ?thesis using "1.IH" lt "1.prems"(2) by simp
  qed
qed

lemma batches_from_times:
  assumes "0 < batch_size"
  shows "b \<in> set (batches_from i total_frames batch_size fps) \<Longrightarrow> (j, t) \<in> set b
           \<Longrightarrow> t = real_of_int j / real_of_int fps"
  using assms
proof (induction i total_frames batch_size fps rule: batches_from.induct)
  case (1 i total_frames batch_size fps)
  from "1.prems"(1) have lt: "i < total_frames"
    by (subst (asm) batches_from.simps) (auto split: if_splits)
  from "1.prems"(1) lt "1.prems"(3)
  consider "b = map (\<lambda>j. (j, real_of_int j / real_of_int fps))
                  (py_range i (min (i + batch_size) total_frames))"
    | "b \<in> set (batches_from (i + batch_size) total_frames batch_size fps)"
    by (subst (asm) batches_from.simps) (auto simp: Let_def)
  then show ?case
  proof cases
    case 1
    with "1.prems"(2) show ?thesis by auto
  next
    case 2
    then show ?thesis using "1.IH" lt "1.prems"(2,3) by simp
  qed
qed


text \<open>
  C3, as the code has it.  The frame count is \<open>int(total_duration * fps)\<close>: the product
  truncated, which is its floor (not its ceiling) whenever it is not negative;
  \<open>total_duration\<close> is the greatest \<open>end_time\<close> of the segments, 0 without segments.  With
  at least one CPU the batch size is defined, and the batches, in order, list the frame
  indices \<open>0, 1, ..., F - 1\<close> once each: they are contiguous, none is empty, no index is
  repeated and none is left out; every index \<open>j\<close> is paired with the timestamp \<open>j / fps\<close>.
\<close>

theorem frame_count_floor_and_batch_partition:
  assumes "0 < cpu_count"
  shows "total_frames_of all_segments fps
           = py_int (total_duration_of all_segments * real_of_int fps)
       \<and> (0 \<le> total_duration_of all_segments * real_of_int fps \<longrightarrow>
            total_frames_of all_segments fps
              = \<lfloor>total_duration_of all_segments * real_of_int fps\<rfloor>)
       \<and> (\<exists>bs batches.
             batch_size_of cpu_count (total_frames_of all_segments fps) = Inr bs
           \<and> frame_batches (total_frames_of all_segments fps) bs fps = Inr batches
           \<and> concat (map (map fst) batches) = py_range 0 (total_frames_of all_segments fps)
           \<and> distinct (concat (map (map fst) batches))
           \<and> (\<forall>b \<in> set batches. b \<noteq> []
                  \<and> (\<forall>(j, t) \<in> set b. t = real_of_int j / real_of_int fps)))"
proof -
  define F where "F = total_frames_of all_segments fps"
  define bs where "bs = max 30 (F div (min cpu_count 8 * 4))"
  have bs: "batch_size_of cpu_count F = Inr bs"
    using assms by (simp add: batch_size_of_def bs_def Let_def)
  have pos: "0 < bs" by (simp add: bs_def)
  have fb: "frame_batches F bs fps = Inr (batches_from 0 F bs fps)"
    using pos by (simp add: frame_batches_def)
  have idx: "concat (map (map fst) (batches_from 0 F bs fps)) = py_range 0 F"
    using pos by (rule batches_from_indices)
  have dist: "distinct (concat (map (map fst) (batches_from 0 F bs fps)))"
    unfolding idx by (simp add: py_range_def)
  have each: "\<forall>b \<in> set (batches_from 0 F bs fps). b \<noteq> []
               \<and> (\<forall>(j, t) \<in> set b. t = real_of_int j / real_of_int fps)"
    using batches_from_nonempty [OF pos] batches_from_times [OF pos] by blast
  have "\<exists>bs batches. batch_size_of cpu_count F = Inr bs
           \<and> frame_batches F bs fps = Inr batches
           \<and> concat (map (map fst) batches) = py_range 0 F
           \<and> distinct (concat (map (map fst) batches))
           \<and> (\<forall>b \<in> set batches. b \<noteq> []
                  \<and> (\<forall>(j, t) \<in> set b. t = real_of_int j / real_of_int fps))"
    using bs fb idx dist each by blast
  then show ?thesis
    unfolding F_def by (simp add: total_frames_of_def py_int_def)
qed

text \<open>
  One segment ending at 3.5 seconds, 10 frames per second, 4 CPUs: 35 frames, in
  batches of at most 30.
\<close>

theorem frame_count_floor_and_batch_partition_witness:
  "total_frames_of
     [\<lparr>seg_text = ''hello'', start_time = 0, end_time = 7 / 2, duration = 7 / 2,
       scene = 1, chunk = 1\<rparr>] 10 = 35
   \<and> (\<exists>bs batches. batch_size_of 4 35 = Inr bs \<and> frame_batches 35 bs 10 = Inr batches
          \<and> concat (map (map fst) batches) = py_range 0 35)"
proof -
  let ?segs = "[\<lparr>seg_text = ''hello'', start_time = 0, end_time = 7 / 2, duration = 7 / 2,
                 scene = 1, chunk = 1\<rparr>]"
  have F: "total_frames_of ?segs 10 = 35"
    by (simp add: total_frames_of_def total_duration_of_def py_int_def)
  have cpu: "(0::int) < 4" by simp
  from frame_count_floor_and_batch_partition [OF cpu, of ?segs 10]
  show ?thesis unfolding F by blast
qed

text \<open>
  One segment ending at 3.05 seconds at 10 frames per second: 30 frames are rendered,
  where the ceiling of \<open>total_duration * fps\<close> is 31.
\<close>

theorem frame_count_ceiling_counterexample:
  "total_frames_of
     [\<lparr>seg_text = ''hello'', start_time = 0, end_time = 61 / 20, duration = 61 / 20,
       scene = 1, chunk = 1\<rparr>] 10 = 30
   \<and> \<lceil>total_duration_of
        [\<lparr>seg_text = ''hello'', start_time = 0, end_time = 61 / 20, duration = 61 / 20,
          scene = 1, chunk = 1\<rparr>] * real_of_int 10\<rceil> = 31"
  by (simp add: total_frames_of_def total_duration_of_def py_int_def)

section \<open>Failed batches\<close>

lemma store_frames_none:
  "store_frames m frames i = None \<longleftrightarrow> m i = None \<and> i \<notin> fst ` set frames"
  unfolding store_frames_def
  by (induction frames arbitrary: m) (auto split: prod.splits)

lemma collect_batches_missing:
  assumes "m i = None"
    and "\<And>k frames. (k, Inr frames) \<in> set results \<Longrightarrow> i \<notin> fst ` set frames"
  shows "fst (collect_batches results (m, out)) i = None"
  using assms
proof (induction results arbitrary: m out)
  case Nil
  then show ?case by simp
next
  case (Cons r rest)
  obtain k res where r: "r = (k, res)" by (cases r)
  have later: "\<And>k frames. (k, Inr frames) \<in> set rest \<Longrightarrow> i \<notin> fst ` set frames"
    using Cons.prems(2) by auto
  show ?case
  proof (cases res)
    case (Inl e)
    have "fst (collect_batches rest (m, out @ [batch_failed_line k])) i = None"
      using Cons.prems(1) later by (rule Cons.IH)
    then show ?thesis using r Inl by simp
  next
    case (Inr batch_frames)
    have "i \<notin> fst ` set batch_frames"
      using Cons.prems(2) [of k batch_frames] r Inr by simp
    then have "store_frames m batch_frames i = None"
      using Cons.prems(1) by (simp add: store_frames_none)
    then have "fst (collect_batches rest (store_frames m batch_frames, out)) i = None"
      using later by (rule Cons.IH)
    then show ?thesis using r Inr by simp
  qed
qed

lemma collect_batches_console:
  "set (snd (collect_batches results (m, out)))
     = set out \<union> {batch_failed_line k |k e. (k, Inl e) \<in> set results}"
proof (induction results "(m, out)" arbitrary: m out rule: collect_batches.induct)
  case 1
  then show ?case by simp
next
  case (2 batch_idx batch_frames rest all_rendered_frames out)
  then show ?case by auto
next
  case (3 batch_idx e rest all_rendered_frames out)
  then show ?case by auto
qed

text \<open>
  C4, as the code has it.  A failed batch is printed and the run goes on: a frame index
  that no completed batch has rendered has no entry in the frame buffer, \<open>make_frame\<close>
  returns the all-black \<open>height\<close> by \<open>width\<close> frame for every time that falls on such an
  index, and the clip, of the full \<open>total_duration\<close>, is written all the same.
\<close>

theorem failed_batch_frames_are_black:
  assumes "0 \<le> width" "0 \<le> height"
    and "py_int (t * real_of_int fps) = frame_idx"
    and "\<forall>(k, res) \<in> set batch_results.
           case res of Inl e \<Rightarrow> True | Inr frames \<Rightarrow> frame_idx \<notin> fst ` set frames"
  shows "frame_function (written_clip
           (write_complete_video shot batch_results total_duration fps width height has_audio)) t
           = Inr (replicate (nat height) (replicate (nat width) (0, 0, 0)))
       \<and> video_duration (written_clip
           (write_complete_video shot batch_results total_duration fps width height has_audio))
           = total_duration
       \<and> (\<forall>(k, res) \<in> set batch_results.
             case res of Inr frames \<Rightarrow> True
             | Inl e \<Rightarrow> batch_failed_line k \<in> set (console
                 (write_complete_video shot batch_results total_duration fps width height
                    has_audio)))"
proof -
  obtain frames_map out where c: "collect_batches batch_results (Map.empty, []) = (frames_map, out)"
    by (cases "collect_batches batch_results (Map.empty, [])")
  have "fst (collect_batches batch_results (Map.empty, [])) frame_idx = None"
  proof (rule collect_batches_missing)
    show "Map.empty frame_idx = None" by simp
    fix k and frames :: "(int \<times> image) list"
    assume "(k, Inr frames) \<in> set batch_results"
    then show "frame_idx \<notin> fst ` set frames"
      using assms(4) by (force dest!: bspec)
  qed
  then have none: "frames_map frame_idx = None" using c by simp
  have "set out = {batch_failed_line k |k e. (k, Inl e) \<in> set batch_results}"
    using collect_batches_console [of batch_results Map.empty "[]"] c by simp
  then have lines: "\<forall>(k, res) \<in> set batch_results.
             case res of Inr frames \<Rightarrow> True | Inl e \<Rightarrow> batch_failed_line k \<in> set out"
    by (auto split: sum.splits)
  have black: "make_frame frames_map fps width height t
                 = Inr (replicate (nat height) (replicate (nat width) (0, 0, 0)))"
    using none assms(1,2,3) by (simp add: make_frame_def Let_def np_zeros_def)
  have con: "console (write_complete_video shot batch_results total_duration fps width height
                        has_audio) = out"
    and fn: "frame_function (written_clip (write_complete_video shot batch_results
               total_duration fps width height has_audio))
               = make_frame frames_map fps width height"
    and dur: "video_duration (written_clip (write_complete_video shot batch_results
               total_duration fps width height has_audio)) = total_duration"
    by (simp_all add: write_complete_video_def c)
  show ?thesis
    unfolding con fn dur using black lines by blast
qed

text \<open>
  A run of 30 frames at 10 frames per second whose single batch failed, frame size 2 by 2.
\<close>

theorem failed_batch_frames_are_black_witness:
  "frame_function (written_clip
       (write_complete_video ''shot_02'' [(0, Inl BatchFailure)] 3 10 2 2 False)) (1 / 2)
     = Inr [[(0, 0, 0), (0, 0, 0)], [(0, 0, 0), (0, 0, 0)]]
   \<and> video_duration (written_clip
       (write_complete_video ''shot_02'' [(0, Inl BatchFailure)] 3 10 2 2 False)) = 3"
proof -
  have a: "(0::int) \<le> 2" by simp
  have b: "py_int (1 / 2 * real_of_int 10) = 5" by (simp add: py_int_def)
  have c: "\<forall>(k, res) \<in> set [(0::int, Inl BatchFailure :: error + (int \<times> image) list)].
             case res of Inl e \<Rightarrow> True | Inr frames \<Rightarrow> 5 \<notin> fst ` set frames"
    by simp
  from failed_batch_frames_are_black [OF a a b c, of "''shot_02''" 3 False]
  show ?thesis by (simp add: numeral_2_eq_2)
qed

text \<open>
  The same run: the only batch failed, so no frame of \<open>[0, 30)\<close> was rendered, yet the
  outcome is a written file whose frames are black, and the only report is a printed line.
\<close>

theorem failed_batch_not_fatal_counterexample:
  "written_path (write_complete_video ''shot_02'' [(0, Inl BatchFailure)] 3 10 2 2 False)
     = ''videos/shot_02_complete_video.mp4''
   \<and> frame_function (written_clip
       (write_complete_video ''shot_02'' [(0, Inl BatchFailure)] 3 10 2 2 False)) 0
     = Inr [[(0, 0, 0), (0, 0, 0)], [(0, 0, 0), (0, 0, 0)]]
   \<and> console (write_complete_video ''shot_02'' [(0, Inl BatchFailure)] 3 10 2 2 False)
     = [batch_failed_line 0]"
  by (simp add: write_complete_video_def make_frame_def py_int_def np_zeros_def numeral_2_eq_2)

section \<open>Looping and truncating the background music\<close>















section \<open>Frames at a segment boundary\<close>


lemma min_of_nonempty: "xs \<noteq> [] \<Longrightarrow> \<exists>m. min_of xs = Inr m"
  by (cases xs) simp_all

lemma max_of_nonempty: "xs \<noteq> [] \<Longrightarrow> \<exists>m. max_of xs = Inr m"
  by (cases xs) simp_all

lemma scene_at_found:
  assumes "find (\<lambda>seg. start_time seg \<le> t \<and> t < end_time seg) all_segments = Some found"
  shows "\<exists>a b. scene_at all_segments t = Inr (scene found, a, b)"
proof -
  have "found \<in> set all_segments"
    using assms by (auto simp: find_Some_iff)
  then have ne: "filter (\<lambda>seg. scene seg = scene found) all_segments \<noteq> []"
    by (auto simp: filter_empty_conv)
  obtain a where a: "min_of (map start_time (filter (\<lambda>seg. scene seg = scene found) all_segments))
                       = Inr a"
    using min_of_nonempty ne by (metis map_is_Nil_conv)
  obtain b where b: "max_of (map end_time (filter (\<lambda>seg. scene seg = scene found) all_segments))
                       = Inr b"
    using max_of_nonempty ne by (metis map_is_Nil_conv)
  show ?thesis
    using assms a b by (simp add: scene_at_def Let_def)
qed



lemma renderer_timing_info_length [simp]:
  "length (renderer_timing_info segs) = length segs"
  by (simp add: renderer_timing_info_def)







section \<open>Missing images\<close>

lemma scene_at_single:
  assumes "\<forall>seg \<in> set all_segments. scene seg = 1"
  shows "\<exists>a b. scene_at all_segments t = Inr (1, a, b)"
proof (cases "find (\<lambda>seg. start_time seg \<le> t \<and> t < end_time seg) all_segments")
  case None
  then show ?thesis by (simp add: scene_at_def)
next
  case (Some found)
  then have "found \<in> set all_segments" by (auto simp: find_Some_iff)
  with assms have "scene found = 1" by simp
  with scene_at_found [OF Some] show ?thesis by simp
qed

lemma get_cached_image_missing:
  assumes "imread cv (image_path shot n) = None" "image_cache st (image_path shot n) = None"
    and "0 \<le> width" "0 \<le> height"
  shows "get_cached_image cv shot n width height st =
           Inr (replicate (nat height) (replicate (nat width) (0, 0, 0)),
                st\<lparr>image_cache := (image_cache st)
                       (image_path shot n \<mapsto> replicate (nat height) (replicate (nat width) (0, 0, 0))),
                   printed := printed st @ [load_warning (image_path shot n)]\<rparr>)"
  using assms by (simp add: get_cached_image_def Let_def np_zeros_def)

lemma zeros_black_shape:
  assumes "0 \<le> width" "0 \<le> height"
  shows "is_black (replicate (nat height) (replicate (nat width) (0, 0, 0)))"
    and "has_shape (replicate (nat height) (replicate (nat width) (0, 0, 0))) height width"
  using assms by (simp_all add: is_black_def has_shape_def list_all_iff)

lemma get_cached_image_placeholder:
  assumes miss: "imread cv (image_path shot n) = None"
    and inv: "placeholder_cached st (image_path shot n) height width"
    and pos: "0 \<le> width" "0 \<le> height"
  shows "\<exists>img st'. get_cached_image cv shot n width height st = Inr (img, st')
           \<and> is_black img \<and> has_shape img height width
           \<and> placeholder_cached st' (image_path shot n) height width"
proof (cases "image_cache st (image_path shot n)")
  case None
  show ?thesis
    unfolding get_cached_image_missing [OF miss None pos]
    using zeros_black_shape [OF pos] by (simp add: placeholder_cached_def)
next
  case (Some cached)
  then have "get_cached_image cv shot n width height st = Inr (cached, st)"
    by (simp add: get_cached_image_def Let_def)
  moreover have "is_black cached \<and> has_shape cached height width"
    using inv Some by (simp add: placeholder_cached_def)
  ultimately show ?thesis using inv by blast
qed

lemma base_frame_black:
  assumes cv: "cv2_contract cv" and pos: "0 < width" "0 < height"
    and one: "\<forall>seg \<in> set all_segments. scene seg = 1"
    and miss: "imread cv (image_path shot 1) = None"
    and inv: "placeholder_cached st (image_path shot 1) height width"
  shows "\<exists>frame st'. base_frame cv all_segments width height shot t st = Inr (frame, st')
           \<and> is_black frame \<and> has_shape frame height width
           \<and> placeholder_cached st' (image_path shot 1) height width"
proof -
  obtain a b where sc: "scene_at all_segments t = Inr (1, a, b)"
    using scene_at_single [OF one] by blast
  obtain img st' where g: "get_cached_image cv shot 1 width height st = Inr (img, st')"
    and black: "is_black img" and shape: "has_shape img height width"
    and inv': "placeholder_cached st' (image_path shot 1) height width"
    using get_cached_image_placeholder [OF miss inv] pos by force
  have "raster img" using shape pos(2,1) by (rule raster_shape)
  from apply_ken_burns_effect_sized [OF cv this pos]
  obtain frame where f: "apply_ken_burns_effect cv img (scene_progress_of t a b)
                           (effect_for_scene 1) width height = Inr frame"
    and fs: "has_shape frame height width" and fb: "is_black frame"
    using black by blast
  have "base_frame cv all_segments width height shot t st = Inr (frame, st')"
    by (simp add: base_frame_def sc g f Let_def)
  with fs fb inv' show ?thesis by blast
qed

lemma black_shape_unique:
  assumes "is_black img" "has_shape img height width"
  shows "img = replicate (nat height) (replicate (nat width) (0, 0, 0))"
proof -
  have len: "length img = nat height" using assms(2) by (auto simp: has_shape_def)
  have row: "row = replicate (nat width) (0, 0, 0)" if "row \<in> set img" for row
  proof -
    have "length row = nat width"
      using assms(2) that by (auto simp: has_shape_def list_all_iff)
    moreover have "\<forall>p \<in> set row. p = (0, 0, 0)"
      using assms(1) that by (auto simp: is_black_def list_all_iff)
    ultimately show ?thesis
      using replicate_length_same [of row "(0, 0, 0)"] by simp
  qed
  then have "replicate (length img) (replicate (nat width) (0, 0, 0)) = img"
    by (intro replicate_length_same) auto
  then show ?thesis using len by simp
qed

lemma render_frame_batch_placeholder:
  assumes cv: "cv2_contract cv" and pos: "0 < width" "0 < height"
    and one: "\<forall>seg \<in> set all_segments. scene seg = 1"
    and miss: "imread cv (image_path shot 1) = None"
    and inv: "placeholder_cached st (image_path shot 1) height width"
  shows "\<exists>st'. render_frame_batch cv batch all_segments timing_info width height shot st
           = Inr (map (\<lambda>frame_info. (fst frame_info,
                        subtitle_on_black cv timing_info height width (snd frame_info))) batch,
                  st')"
  using inv
proof (induction batch arbitrary: st)
  case Nil
  then show ?case by simp
next
  case (Cons frame_info rest)
  obtain i t where fi: "frame_info = (i, t)" by (cases frame_info)
  obtain frame st1 where b: "base_frame cv all_segments width height shot t st = Inr (frame, st1)"
    and fb: "is_black frame" and fs: "has_shape frame height width"
    and inv1: "placeholder_cached st1 (image_path shot 1) height width"
    using base_frame_black [OF cv pos one miss Cons.prems] by blast
  have frame: "frame = replicate (nat height) (replicate (nat width) (0, 0, 0))"
    using fb fs by (rule black_shape_unique)
  have ov: "create_subtitle_overlay_from_rst cv frame timing_info t
              = subtitle_on_black cv timing_info height width t"
    by (simp add: create_subtitle_overlay_from_rst_def subtitle_on_black_def Let_def frame)
  have rf: "render_frame cv all_segments timing_info width height shot frame_info st
              = Inr ((i, subtitle_on_black cv timing_info height width t), st1)"
    by (simp add: render_frame_def fi b ov)
  obtain st2 where
    rest: "render_frame_batch cv rest all_segments timing_info width height shot st1
             = Inr (map (\<lambda>frame_info. (fst frame_info,
                        subtitle_on_black cv timing_info height width (snd frame_info))) rest,
                    st2)"
    using Cons.IH [OF inv1] by blast
  have "render_frame_batch cv (frame_info # rest) all_segments timing_info width height shot st
          = Inr (map (\<lambda>frame_info. (fst frame_info,
                        subtitle_on_black cv timing_info height width (snd frame_info)))
                   (frame_info # rest), st2)"
    using rf [unfolded fi] rest unfolding fi by simp
  then show ?case by blast
qed

lemma captioning_cv2_contract: "cv2_contract captioning_cv2"
  using plain_cv2_contract by (simp add: cv2_contract_def captioning_cv2_def)

text \<open>
  C9, as the code has it.  When the image of a scene cannot be decoded (and is not yet in
  the cache), \<open>get_cached_image\<close> returns the all-black buffer of \<open>height\<close> rows by \<open>width\<close>
  columns, stores it in the cache and prints a warning; it does not fail.  A run all of
  whose segments belong to scene 1, with the image of scene 1 missing, renders every frame
  of every batch without failure: each rendered frame keeps its index and is the black
  \<open>height\<close> by \<open>width\<close> frame itself when the subtitle text at its timestamp is blank, and
  that subtitle text drawn on the black frame otherwise.
\<close>

theorem missing_image_gives_black_placeholder:
  assumes "0 < width" "0 < height"
  shows "(imread cv (image_path shot n) = None \<and> image_cache st (image_path shot n) = None \<longrightarrow>
            get_cached_image cv shot n width height st =
              Inr (replicate (nat height) (replicate (nat width) (0, 0, 0)),
                   st\<lparr>image_cache := (image_cache st)
                          (image_path shot n \<mapsto>
                             replicate (nat height) (replicate (nat width) (0, 0, 0))),
                      printed := printed st @ [load_warning (image_path shot n)]\<rparr>)
          \<and> is_black (replicate (nat height) (replicate (nat width) (0, 0, 0)))
          \<and> has_shape (replicate (nat height) (replicate (nat width) (0, 0, 0))) height width)
       \<and> (cv2_contract cv \<and> (\<forall>seg \<in> set all_segments. scene seg = 1)
            \<and> imread cv (image_path shot 1) = None
            \<and> image_cache st (image_path shot 1) = None \<longrightarrow>
            (\<exists>st'.
               render_frame_batch cv batch all_segments timing_info width height shot st
                 = Inr (map (\<lambda>frame_info.
                              (fst frame_info,
                               subtitle_on_black cv timing_info height width (snd frame_info)))
                          batch, st')))"
proof (intro conjI impI)
  assume a: "imread cv (image_path shot n) = None \<and> image_cache st (image_path shot n) = None"
  have pos: "0 \<le> width" "0 \<le> height" using assms by simp_all
  from a show "get_cached_image cv shot n width height st =
              Inr (replicate (nat height) (replicate (nat width) (0, 0, 0)),
                   st\<lparr>image_cache := (image_cache st)
                          (image_path shot n \<mapsto>
                             replicate (nat height) (replicate (nat width) (0, 0, 0))),
                      printed := printed st @ [load_warning (image_path shot n)]\<rparr>)"
    using get_cached_image_missing [OF _ _ pos] by blast
  show "is_black (replicate (nat height) (replicate (nat width) (0, 0, 0)))"
    using pos by (rule zeros_black_shape)
  show "has_shape (replicate (nat height) (replicate (nat width) (0, 0, 0))) height width"
    using pos by (rule zeros_black_shape)
next
  assume b: "cv2_contract cv \<and> (\<forall>seg \<in> set all_segments. scene seg = 1)
            \<and> imread cv (image_path shot 1) = None
            \<and> image_cache st (image_path shot 1) = None"
  then have "placeholder_cached st (image_path shot 1) height width"
    by (simp add: placeholder_cached_def)
  with b assms show "\<exists>st'.
               render_frame_batch cv batch all_segments timing_info width height shot st
                 = Inr (map (\<lambda>frame_info.
                              (fst frame_info,
                               subtitle_on_black cv timing_info height width (snd frame_info)))
                          batch, st')"
    by (intro render_frame_batch_placeholder) auto
qed

text \<open>
  One scene of one second with the text \<open>hello\<close>, no image on disk, an empty cache, frames
  of 2 by 2 pixels.  Frame 20, at 2 seconds, has no subtitle and is the black frame; frame
  0 has the subtitle, which the first instance of the libraries draws without a mark.
\<close>

theorem missing_image_gives_black_placeholder_witness:
  "fst (projr (get_cached_image plain_cv2 ''shot_02'' 1 2 2 \<lparr>image_cache = Map.empty, printed = []\<rparr>))
     = [[(0, 0, 0), (0, 0, 0)], [(0, 0, 0), (0, 0, 0)]]
   \<and> (\<exists>st'.
         render_frame_batch plain_cv2 [(0, 0), (20, 2)]
           [\<lparr>seg_text = ''hello'', start_time = 0, end_time = 1, duration = 1,
             scene = 1, chunk = 1\<rparr>]
           [\<lparr>seg_text = ''hello'', start_time = 0, end_time = 1, duration = 1,
             scene = 1, chunk = 1\<rparr>]
           2 2 ''shot_02'' \<lparr>image_cache = Map.empty, printed = []\<rparr>
         = Inr ([(0, [[(0, 0, 0), (0, 0, 0)], [(0, 0, 0), (0, 0, 0)]]),
                 (20, [[(0, 0, 0), (0, 0, 0)], [(0, 0, 0), (0, 0, 0)]])], st'))"
proof -
  let ?st = "\<lparr>image_cache = Map.empty, printed = []\<rparr>"
  let ?segs = "[\<lparr>seg_text = ''hello'', start_time = 0, end_time = 1, duration = 1,
                  scene = 1, chunk = 1\<rparr>]"
  let ?batch = "[(0::int, 0::real), (20, 2)]"
  have pos: "(0::int) < 2" by simp
  have miss: "imread plain_cv2 (image_path ''shot_02'' 1) = None
                \<and> image_cache ?st (image_path ''shot_02'' 1) = None"
    by (simp add: plain_cv2_def)
  have run: "cv2_contract plain_cv2 \<and> (\<forall>seg \<in> set ?segs. scene seg = 1)
            \<and> imread plain_cv2 (image_path ''shot_02'' 1) = None
            \<and> image_cache ?st (image_path ''shot_02'' 1) = None"
    using miss plain_cv2_contract by simp
  note inst = missing_image_gives_black_placeholder [OF pos pos, of plain_cv2 "''shot_02''" 1 ?st
      ?segs ?batch ?segs]
  from inst miss have "get_cached_image plain_cv2 ''shot_02'' 1 2 2 ?st =
      Inr (replicate (nat 2) (replicate (nat 2) (0, 0, 0)),
           ?st\<lparr>image_cache := (image_cache ?st)
                  (image_path ''shot_02'' 1 \<mapsto> replicate (nat 2) (replicate (nat 2) (0, 0, 0))),
               printed := printed ?st @ [load_warning (image_path ''shot_02'' 1)]\<rparr>)"
    by blast
  then have a: "fst (projr (get_cached_image plain_cv2 ''shot_02'' 1 2 2 ?st))
     = [[(0, 0, 0), (0, 0, 0)], [(0, 0, 0), (0, 0, 0)]]"
    by (simp add: numeral_2_eq_2)
  from inst run obtain st' where
    r: "render_frame_batch plain_cv2 ?batch ?segs ?segs 2 2 ''shot_02'' ?st
          = Inr (map (\<lambda>frame_info.
                        (fst frame_info, subtitle_on_black plain_cv2 ?segs 2 2 (snd frame_info)))
                   ?batch, st')"
    by blast
  have frames: "map (\<lambda>frame_info.
                        (fst frame_info, subtitle_on_black plain_cv2 ?segs 2 2 (snd frame_info)))
                   ?batch
      = [(0, [[(0, 0, 0), (0, 0, 0)], [(0, 0, 0), (0, 0, 0)]]),
         (20, [[(0, 0, 0), (0, 0, 0)], [(0, 0, 0), (0, 0, 0)]])]"
    by (simp add: subtitle_on_black_def plain_cv2_def numeral_2_eq_2 Let_def py_strip_def)
  have "\<exists>st'. render_frame_batch plain_cv2 ?batch ?segs ?segs 2 2 ''shot_02'' ?st
         = Inr ([(0, [[(0, 0, 0), (0, 0, 0)], [(0, 0, 0), (0, 0, 0)]]),
                 (20, [[(0, 0, 0), (0, 0, 0)], [(0, 0, 0), (0, 0, 0)]])], st')"
    using r unfolding frames by (rule exI)
  with a show ?thesis by (rule conjI)
qed

text \<open>
  The same run with the second instance of the libraries, whose text overlay paints a
  white pixel: frame 0, inside the subtitle \<open>hello\<close>, is rendered from the black
  placeholder and is not black.
\<close>

theorem subtitled_placeholder_frame_not_black_counterexample:
  "(\<exists>st'.
      render_frame_batch captioning_cv2 [(0, 0)]
        [\<lparr>seg_text = ''hello'', start_time = 0, end_time = 1, duration = 1,
          scene = 1, chunk = 1\<rparr>]
        [\<lparr>seg_text = ''hello'', start_time = 0, end_time = 1, duration = 1,
          scene = 1, chunk = 1\<rparr>]
        2 2 ''shot_02'' \<lparr>image_cache = Map.empty, printed = []\<rparr>
      = Inr ([(0, [[(0, 0, 0), (0, 0, 0)], [(0, 0, 0), (255, 255, 255)]])], st'))
   \<and> \<not> is_black [[(0, 0, 0), (0, 0, 0)], [(0, 0, 0), (255, 255, 255)]]"
proof -
  let ?st = "\<lparr>image_cache = Map.empty, printed = []\<rparr>"
  let ?segs = "[\<lparr>seg_text = ''hello'', start_time = 0, end_time = 1, duration = 1,
                  scene = 1, chunk = 1\<rparr>]"
  let ?batch = "[(0::int, 0::real)]"
  have pos: "(0::int) < 2" by simp
  have one: "\<forall>seg \<in> set ?segs. scene seg = 1" by simp
  have miss: "imread captioning_cv2 (image_path ''shot_02'' 1) = None"
    by (simp add: captioning_cv2_def plain_cv2_def)
  have inv: "placeholder_cached ?st (image_path ''shot_02'' 1) 2 2"
    by (simp add: placeholder_cached_def)
  from render_frame_batch_placeholder [OF captioning_cv2_contract pos pos one miss inv,
      of ?batch ?segs]
  obtain st' where
    r: "render_frame_batch captioning_cv2 ?batch ?segs ?segs 2 2 ''shot_02'' ?st
          = Inr (map (\<lambda>frame_info.
                        (fst frame_info,
                         subtitle_on_black captioning_cv2 ?segs 2 2 (snd frame_info)))
                   ?batch, st')"
    by blast
  have strip: "py_strip ''hello'' = ''hello''"
    by (simp add: py_strip_def is_space_def)
  have frames: "map (\<lambda>frame_info.
                        (fst frame_info,
                         subtitle_on_black captioning_cv2 ?segs 2 2 (snd frame_info)))
                   ?batch
      = [(0, [[(0, 0, 0), (0, 0, 0)], [(0, 0, 0), (255, 255, 255)]])]"
    by (simp add: subtitle_on_black_def captioning_cv2_def mark_text_def strip numeral_2_eq_2
        Let_def)
  have "\<exists>st'. render_frame_batch captioning_cv2 ?batch ?segs ?segs 2 2 ''shot_02'' ?st
         = Inr ([(0, [[(0, 0, 0), (0, 0, 0)], [(0, 0, 0), (255, 255, 255)]])], st')"
    using r unfolding frames by (rule exI)
  moreover have "\<not> is_black [[(0, 0, 0), (0, 0, 0)], [(0, 0, 0), (255, 255, 255)]]"
    by (simp add: is_black_def)
  ultimately show ?thesis by (rule conjI)
qed

section \<open>Timeline produced by generate\_complete\_rst\_file\<close>

lemma chunk_segments_length [simp]:
  "length (chunk_segments i chunks cur d) = length chunks"
  by (simp add: chunk_segments_def Let_def)

lemma chunk_segments_nth:
  assumes "j < length chunks"
  shows "chunk_segments i chunks cur d ! j =
           \<lparr>seg_text = chunks ! j,
            start_time = cur + real j * (d / real (length chunks)),
            end_time = cur + (real j + 1) * (d / real (length chunks)),
            duration = d / real (length chunks),
            scene = i, chunk = int j + 1\<rparr>"
proof -
  have "chunks \<noteq> []" using assms by auto
  then show ?thesis
    using assms by (auto simp: chunk_segments_def Let_def nth_enumerate_eq)
qed

lemma chunk_segments_bounds:
  assumes "0 \<le> d" "s \<in> set (chunk_segments i chunks cur d)"
  shows "cur \<le> start_time s \<and> start_time s \<le> end_time s \<and> end_time s \<le> cur + d
         \<and> scene s = i"
proof -
  from assms(2) obtain j where j: "j < length chunks"
    and s: "s = chunk_segments i chunks cur d ! j"
    by (auto simp: in_set_conv_nth)
  define n where "n = length chunks"
  define cd where "cd = d / real n"
  have n: "0 < n" using j by (auto simp: n_def)
  have cd: "0 \<le> cd" using assms(1) n by (simp add: cd_def)
  have total: "real n * cd = d" using n by (simp add: cd_def)
  have "(real j + 1) * cd \<le> real n * cd"
    using j cd by (intro mult_right_mono) (auto simp: n_def)
  then have up: "(real j + 1) * cd \<le> d" using total by simp
  have lo: "0 \<le> real j * cd" using cd by simp
  have mid: "real j * cd \<le> (real j + 1) * cd"
    using cd by (intro mult_right_mono) auto
  show ?thesis
    unfolding s chunk_segments_nth [OF j] n_def [symmetric] cd_def [symmetric]
    using up lo mid by simp
qed

lemma chunk_segments_sorted:
  assumes "0 \<le> d"
  shows "sorted (map start_time (chunk_segments i chunks cur d))"
proof -
  define n where "n = length chunks"
  define cd where "cd = d / real n"
  have "start_time (chunk_segments i chunks cur d ! j)
          \<le> start_time (chunk_segments i chunks cur d ! Suc j)" if "Suc j < length chunks" for j
  proof -
    have n: "0 < n" using that by (auto simp: n_def)
    have cd: "0 \<le> cd" using assms n by (simp add: cd_def)
    have "real j * cd \<le> real (Suc j) * cd"
      using cd by (intro mult_right_mono) auto
    moreover have "j < length chunks" using that by simp
    ultimately show ?thesis
      using that by (simp add: chunk_segments_nth n_def [symmetric] cd_def [symmetric])
  qed
  then show ?thesis by (simp add: sorted_iff_nth_Suc)
qed

lemma chunk_segments_abut:
  "successively (\<lambda>a b. end_time a = start_time b) (chunk_segments i chunks cur d)"
proof -
  have "end_time (chunk_segments i chunks cur d ! j)
          = start_time (chunk_segments i chunks cur d ! Suc j)" if "Suc j < length chunks" for j
  proof -
    have "j < length chunks" using that by simp
    then show ?thesis using that by (simp add: chunk_segments_nth [of _ chunks])
  qed
  then show ?thesis by (simp add: successively_conv_nth)
qed

lemma chunk_segments_last:
  assumes "chunks \<noteq> []"
  shows "chunk_segments i chunks cur d \<noteq> []"
    and "end_time (last (chunk_segments i chunks cur d)) = cur + d"
proof -
  define n where "n = length chunks"
  have n: "0 < n" using assms by (simp add: n_def)
  have "length (chunk_segments i chunks cur d) \<noteq> 0"
    using assms by simp
  then show ne: "chunk_segments i chunks cur d \<noteq> []"
    by (simp only: length_0_conv not_False_eq_True)
  have "last (chunk_segments i chunks cur d) = chunk_segments i chunks cur d ! (n - 1)"
    using ne by (simp add: last_conv_nth n_def)
  moreover have "n - 1 < length chunks" using n by (simp add: n_def)
  moreover have "(real (n - 1) + 1) * (d / real n) = d"
    using n by (simp add: of_nat_diff)
  ultimately show "end_time (last (chunk_segments i chunks cur d)) = cur + d"
    by (simp add: chunk_segments_nth n_def [symmetric])
qed

lemma rst_loop_acc:
  "rst_loop rp ad i zs acc cur
     = (acc @ fst (rst_loop rp ad i zs [] cur), snd (rst_loop rp ad i zs [] cur))"
proof (induction zs arbitrary: i acc cur)
  case Nil
  then show ?case by simp
next
  case (Cons z zs)
  obtain caption_text audio_path where z: "z = (caption_text, audio_path)" by (cases z)
  define d where "d = scene_duration_of ad audio_path"
  define new where "new = chunk_segments i (split_into_chunks (rp caption_text) 15) cur d"
  have "rst_loop rp ad i (z # zs) acc cur = rst_loop rp ad (i + 1) zs (acc @ new) (cur + d)"
    by (simp add: z Let_def d_def new_def)
  also have "\<dots> = ((acc @ new) @ fst (rst_loop rp ad (i + 1) zs [] (cur + d)),
                     snd (rst_loop rp ad (i + 1) zs [] (cur + d)))"
    by (rule Cons.IH)
  finally have a: "rst_loop rp ad i (z # zs) acc cur
      = (acc @ new @ fst (rst_loop rp ad (i + 1) zs [] (cur + d)),
         snd (rst_loop rp ad (i + 1) zs [] (cur + d)))"
    by simp
  have "rst_loop rp ad i (z # zs) [] cur = rst_loop rp ad (i + 1) zs new (cur + d)"
    by (simp add: z Let_def d_def new_def)
  also have "\<dots> = (new @ fst (rst_loop rp ad (i + 1) zs [] (cur + d)),
                     snd (rst_loop rp ad (i + 1) zs [] (cur + d)))"
    by (rule Cons.IH)
  finally show ?case using a by simp
qed

lemma rst_loop_Cons:
  "rst_loop rp ad i ((caption_text, audio_path) # zs) [] cur =
     (chunk_segments i (split_into_chunks (rp caption_text) 15) cur
          (scene_duration_of ad audio_path)
        @ fst (rst_loop rp ad (i + 1) zs [] (cur + scene_duration_of ad audio_path)),
      snd (rst_loop rp ad (i + 1) zs [] (cur + scene_duration_of ad audio_path)))"
proof -
  have "rst_loop rp ad i ((caption_text, audio_path) # zs) [] cur
          = rst_loop rp ad (i + 1) zs
              (chunk_segments i (split_into_chunks (rp caption_text) 15) cur
                 (scene_duration_of ad audio_path))
              (cur + scene_duration_of ad audio_path)"
    by (simp add: Let_def)
  then show ?thesis by (simp add: rst_loop_acc [where acc = "chunk_segments _ _ _ _"])
qed


lemma scene_duration_nonneg:
  assumes "\<And>p d. ad p = Some d \<Longrightarrow> 0 \<le> d"
  shows "0 \<le> scene_duration_of ad audio_path"
  using assms by (auto simp: scene_duration_of_def split: option.splits)

lemma sorted_constant: "(\<And>x. x \<in> set xs \<Longrightarrow> f x = c) \<Longrightarrow> sorted (map f xs)"
  by (induction xs) auto

lemma rst_loop_timeline:
  assumes nonneg0: "\<forall>p d. ad p = Some d \<longrightarrow> 0 \<le> d"
  shows "snd (rst_loop rp ad i zs [] cur)
           = cur + sum_list (map (\<lambda>z. scene_duration_of ad (snd z)) zs)
       \<and> (\<forall>s \<in> set (fst (rst_loop rp ad i zs [] cur)).
             cur \<le> start_time s \<and> start_time s \<le> end_time s
           \<and> end_time s \<le> snd (rst_loop rp ad i zs [] cur) \<and> i \<le> scene s)
       \<and> sorted (map start_time (fst (rst_loop rp ad i zs [] cur)))
       \<and> sorted (map scene (fst (rst_loop rp ad i zs [] cur)))
       \<and> successively (\<lambda>a b. scene a = scene b \<longrightarrow> end_time a = start_time b)
             (fst (rst_loop rp ad i zs [] cur))
       \<and> (zs \<noteq> [] \<and> split_into_chunks (rp (fst (last zs))) 15 \<noteq> [] \<longrightarrow>
             fst (rst_loop rp ad i zs [] cur) \<noteq> []
           \<and> end_time (last (fst (rst_loop rp ad i zs [] cur)))
               = snd (rst_loop rp ad i zs [] cur))"
proof -
  have nonneg: "\<And>p d. ad p = Some d \<Longrightarrow> 0 \<le> d" using nonneg0 by blast
  show ?thesis
proof (induction zs arbitrary: i cur)
  case Nil
  then show ?case by simp
next
  case (Cons z zs)
  obtain caption_text audio_path where z: "z = (caption_text, audio_path)" by (cases z)
  define d where "d = scene_duration_of ad audio_path"
  define chunks where "chunks = split_into_chunks (rp caption_text) 15"
  define N where "N = chunk_segments i chunks cur d"
  define L where "L = fst (rst_loop rp ad (i + 1) zs [] (cur + d))"
  define T where "T = snd (rst_loop rp ad (i + 1) zs [] (cur + d))"
  let ?P = "\<lambda>a b :: segment. scene a = scene b \<longrightarrow> end_time a = start_time b"
  have d0: "0 \<le> d" unfolding d_def using nonneg by (rule scene_duration_nonneg)
  have out: "fst (rst_loop rp ad i (z # zs) [] cur) = N @ L"
    and tot: "snd (rst_loop rp ad i (z # zs) [] cur) = T"
    by (simp_all add: z rst_loop_Cons N_def L_def T_def d_def chunks_def del: rst_loop.simps)
  note IH = Cons.IH [of "i + 1" "cur + d", folded L_def T_def]
  have T: "T = cur + d + sum_list (map (\<lambda>z. scene_duration_of ad (snd z)) zs)"
    using IH by simp
  have "0 \<le> sum_list (map (\<lambda>z. scene_duration_of ad (snd z)) zs)"
    using nonneg by (intro sum_list_nonneg) (auto simp: scene_duration_nonneg)
  then have dT: "cur + d \<le> T" using T by simp
  have Nb: "cur \<le> start_time s \<and> start_time s \<le> end_time s \<and> end_time s \<le> cur + d
              \<and> scene s = i" if "s \<in> set N" for s
    using chunk_segments_bounds [OF d0] that unfolding N_def by blast
  have Lb: "cur + d \<le> start_time s \<and> start_time s \<le> end_time s \<and> end_time s \<le> T
              \<and> i + 1 \<le> scene s" if "s \<in> set L" for s
    using IH that by blast
  have c1: "T = cur + sum_list (map (\<lambda>z. scene_duration_of ad (snd z)) (z # zs))"
    using T by (simp add: z d_def)
  have c2: "\<forall>s \<in> set (N @ L). cur \<le> start_time s \<and> start_time s \<le> end_time s
              \<and> end_time s \<le> T \<and> i \<le> scene s"
  proof
    fix s assume "s \<in> set (N @ L)"
    then consider "s \<in> set N" | "s \<in> set L" by auto
    then show "cur \<le> start_time s \<and> start_time s \<le> end_time s \<and> end_time s \<le> T
                 \<and> i \<le> scene s"
    proof cases
      case 1
      from Nb [OF 1] dT show ?thesis by simp
    next
      case 2
      from Lb [OF 2] d0 show ?thesis by simp
    qed
  qed
  have c3: "sorted (map start_time (N @ L))"
  proof -
    have "sorted (map start_time N)" unfolding N_def using d0 by (rule chunk_segments_sorted)
    moreover have "sorted (map start_time L)" using IH by simp
    moreover have "start_time a \<le> start_time b" if "a \<in> set N" "b \<in> set L" for a b
      using Nb [OF that(1)] Lb [OF that(2)] by linarith
    ultimately show ?thesis by (auto simp: sorted_append)
  qed
  have c4: "sorted (map scene (N @ L))"
  proof -
    have "sorted (map scene N)" using Nb by (intro sorted_constant [of _ _ i]) simp
    moreover have "sorted (map scene L)" using IH by simp
    moreover have "scene a \<le> scene b" if "a \<in> set N" "b \<in> set L" for a b
      using Nb [OF that(1)] Lb [OF that(2)] by linarith
    ultimately show ?thesis by (auto simp: sorted_append)
  qed
  have c5: "successively ?P (N @ L)"
  proof -
    have "successively (\<lambda>a b. end_time a = start_time b) N"
      unfolding N_def by (rule chunk_segments_abut)
    then have "successively ?P N" by (rule successively_mono) simp
    moreover have "successively ?P L" using IH by simp
    moreover have "?P (last N) (hd L)" if "N \<noteq> []" "L \<noteq> []"
    proof -
      have "scene (last N) = i" using Nb that(1) by simp
      moreover have "i + 1 \<le> scene (hd L)" using Lb that(2) by simp
      ultimately show ?thesis by simp
    qed
    ultimately show ?thesis unfolding successively_append_iff by blast
  qed
  have c6: "N @ L \<noteq> [] \<and> end_time (last (N @ L)) = T"
    if "split_into_chunks (rp (fst (last (z # zs)))) 15 \<noteq> []"
  proof (cases "zs = []")
    case True
    then have "L = []" "T = cur + d" by (simp_all add: L_def T_def)
    moreover have "chunks \<noteq> []" using that True by (simp add: chunks_def z)
    ultimately show ?thesis
      using chunk_segments_last [of chunks i cur d] by (simp add: N_def)
  next
    case False
    then have "split_into_chunks (rp (fst (last zs))) 15 \<noteq> []" using that by simp
    with False IH have "L \<noteq> []" "end_time (last L) = T" by simp_all
    then show ?thesis by simp
  qed
  show ?case
    unfolding out tot using c1 c2 c3 c4 c5 c6 by blast
qed
qed


lemma split_hello: "split_into_chunks ''hello'' 15 = [''hello'']"
  by (simp add: split_into_chunks_def py_split_def is_space_def py_strip_def Let_def)

lemma split_empty: "split_into_chunks [] 15 = []"
  by (simp add: split_into_chunks_def py_split_def py_strip_def)

text \<open>
  In exact arithmetic and for audio durations that are not negative, the segment list of
  \<open>generate_complete_rst_file\<close> has the ordering part of the timeline invariants: start
  times never decrease, the segments of one scene are consecutive (between two segments of
  the same scene there are only segments of that scene), and each ends where the next of
  the scene starts.
\<close>

lemma generated_timeline_order:
  assumes "\<forall>p d. audio_duration p = Some d \<longrightarrow> 0 \<le> d"
  shows "timeline_ok
           (generate_complete_rst_file remove_punctuation audio_duration captions audio_files)
       \<and> (\<forall>j m k. j \<le> m \<and> m \<le> k
             \<and> k < length (generate_complete_rst_file remove_punctuation audio_duration
                                captions audio_files)
             \<and> scene (generate_complete_rst_file remove_punctuation audio_duration
                         captions audio_files ! j)
               = scene (generate_complete_rst_file remove_punctuation audio_duration
                         captions audio_files ! k)
            \<longrightarrow> scene (generate_complete_rst_file remove_punctuation audio_duration
                         captions audio_files ! m)
               = scene (generate_complete_rst_file remove_punctuation audio_duration
                         captions audio_files ! j))"
proof -
  define segs where
    "segs = generate_complete_rst_file remove_punctuation audio_duration captions audio_files"
  define T where
    "T = rst_total_duration remove_punctuation audio_duration captions audio_files"
  define zs where "zs = zip captions audio_files"
  have segs: "segs = fst (rst_loop remove_punctuation audio_duration 1 zs [] 0)"
    and T: "T = snd (rst_loop remove_punctuation audio_duration 1 zs [] 0)"
    by (simp_all add: segs_def T_def zs_def generate_complete_rst_file_def
        rst_total_duration_def)
  note loop = rst_loop_timeline [OF assms, of remove_punctuation 1 zs 0, folded segs T]
  have ok: "timeline_ok segs"
    using loop by (auto simp: timeline_ok_def)
  have between: "scene (segs ! m) = scene (segs ! j)"
    if "j \<le> m \<and> m \<le> k \<and> k < length segs \<and> scene (segs ! j) = scene (segs ! k)"
    for j m k
  proof -
    have srt: "sorted (map scene segs)" using loop by blast
    have "scene (segs ! j) \<le> scene (segs ! m)"
      using sorted_nth_mono [OF srt, of j m] that by simp
    moreover have "scene (segs ! m) \<le> scene (segs ! k)"
      using sorted_nth_mono [OF srt, of m k] that by simp
    ultimately show ?thesis using that by simp
  qed
  show ?thesis
    unfolding segs_def [symmetric]
    using ok between by blast
qed

text \<open>
  C7.  The claim: the \<open>end_time\<close> of the last segment produced by
  \<open>generate_complete_rst_file\<close> equals the total video duration, the sum of all per-scene
  durations.  The code at two scenes without audio files (3.0 seconds each) whose second
  caption is empty: the second scene yields no chunk, so the loop appends no segment for
  it and still adds its 3.0 seconds to \<open>current_start_time\<close>; the only segment ends at 3,
  the total duration is 6.  The sibling \<open>StoryboardProcessor.generate_complete_rst_file\<close>,
  at the same two scenes, puts the text of the second scene in as one chunk: its last
  segment ends at 6, its total duration.
\<close>

theorem empty_caption_last_segment_ends_early:
  "generate_complete_rst_file id Map.empty [''hello'', []] [''shot_01_1.wav'', ''shot_01_2.wav'']
     = [\<lparr>seg_text = ''hello'', start_time = 0, end_time = 3, duration = 3,
         scene = 1, chunk = 1\<rparr>]
   \<and> rst_total_duration id Map.empty [''hello'', []] [''shot_01_1.wav'', ''shot_01_2.wav'']
     = 6
   \<and> storyboard_generate_complete_rst_file id Map.empty ''shot_01'' [(1, ''hello''), (2, [])]
     = ([\<lparr>seg_text = ''hello'', start_time = 0, end_time = 3, duration = 3,
          scene = 1, chunk = 1\<rparr>,
         \<lparr>seg_text = [], start_time = 3, end_time = 6, duration = 3,
          scene = 2, chunk = 1\<rparr>], 6)"
  by (simp add: generate_complete_rst_file_def rst_total_duration_def scene_duration_of_def
      storyboard_generate_complete_rst_file_def
      Let_def split_hello split_empty chunk_segments_def enumerate_eq_zip)

end
